theory Spec2Isabelle
  imports Complex_Main "HOL-Library.Multiset"
begin

section \<open>JavaScript values as the viewer stores them\<close>

text \<open>
  The data layer of \<^verbatim>\<open>src/app.js\<close> keeps one record per cell in \<^verbatim>\<open>allData\<close>; a record maps
  attribute names to JavaScript values. A JavaScript number is a finite value, one of the two
  infinities, or NaN. A finite value is modelled by the real number it denotes. Comparisons,
  minima and maxima are exact on these values; where the code rounds (a product of two numbers,
  a store into a \<^verbatim>\<open>Float32Array\<close>) the model rounds as well, with the functions of the
  section on rounding.
\<close>

datatype jsnum = Fin real | PInf | NInf | NaN

datatype jsval = JNum jsnum | JStr string | JUndefined | JNull

text \<open>\<^verbatim>\<open>a <= b\<close> on numbers: false as soon as one side is NaN.\<close>

fun num_le :: "jsnum \<Rightarrow> jsnum \<Rightarrow> bool" where
  "num_le NaN _ = False"
| "num_le _ NaN = False"
| "num_le NInf _ = True"
| "num_le _ PInf = True"
| "num_le (Fin a) (Fin b) = (a \<le> b)"
| "num_le _ _ = False"

text \<open>\<^verbatim>\<open>Math.min\<close> and \<^verbatim>\<open>Math.max\<close> of two numbers (NaN is contagious).\<close>

definition Math_min :: "jsnum \<Rightarrow> jsnum \<Rightarrow> jsnum" where
  "Math_min a b = (if a = NaN \<or> b = NaN then NaN else if num_le a b then a else b)"

definition Math_max :: "jsnum \<Rightarrow> jsnum \<Rightarrow> jsnum" where
  "Math_max a b = (if a = NaN \<or> b = NaN then NaN else if num_le a b then b else a)"

text \<open>\<^verbatim>\<open>a < b\<close> on numbers, and \<^verbatim>\<open>Math.floor\<close>.\<close>

definition num_lt :: "jsnum \<Rightarrow> jsnum \<Rightarrow> bool" where
  "num_lt a b = (num_le a b \<and> a \<noteq> b)"

fun Math_floor :: "jsnum \<Rightarrow> jsnum" where
  "Math_floor (Fin x) = Fin (of_int \<lfloor>x\<rfloor>)"
| "Math_floor v = v"

section \<open>Binary floating-point rounding\<close>

text \<open>
  Rounding of a real number to a binary floating-point format, to nearest with ties to the
  even significand. A format is given by its precision \<open>p\<close> (bits of the significand), by \<open>q\<close>,
  where \<open>2^-q\<close> is its least positive value, and by \<open>emax\<close>, where \<open>2^emax\<close> is the least
  power of two beyond its finite values: \<open>24, 149, 128\<close> for single precision and
  \<open>53, 1074, 1024\<close> for double precision. \<open>ilog2 a\<close> is the exponent of the binade of a positive
  \<open>a\<close>, that is \<open>\<lfloor>log\<^sub>2 a\<rfloor>\<close>; the values of the format in that binade are the multiples of
  \<open>2^(ilog2 a - (p - 1))\<close>, and below the least normal binade they are the multiples of
  \<open>2^-q\<close>. The sign of zero is not modelled.
\<close>

definition round_half_even :: "real \<Rightarrow> int" where
  "round_half_even z =
     (let f = \<lfloor>z\<rfloor>; d = z - of_int f
      in if d < 1 / 2 then f else if 1 / 2 < d then f + 1 else if even f then f else f + 1)"

fun bit_length :: "nat \<Rightarrow> nat" where
  "bit_length n = (if n = 0 then 0 else Suc (bit_length (n div 2)))"

declare bit_length.simps [simp del]

definition ilog2 :: "real \<Rightarrow> int" where
  "ilog2 a = (if 1 \<le> a then int (bit_length (nat \<lfloor>a\<rfloor>)) - 1
              else - int (bit_length (nat (\<lceil>1 / a\<rceil> - 1))))"

definition pow2 :: "int \<Rightarrow> real" where
  "pow2 e = (if 0 \<le> e then 2 ^ nat e else 1 / 2 ^ nat (- e))"

definition float_round :: "nat \<Rightarrow> nat \<Rightarrow> nat \<Rightarrow> real \<Rightarrow> jsnum" where
  "float_round p q emax x =
     (let a = \<bar>x\<bar>;
          e = max (ilog2 a - (int p - 1)) (- int q);
          y = of_int (round_half_even (a / pow2 e)) * pow2 e
      in if 2 ^ emax \<le> y then (if x < 0 then NInf else PInf)
         else Fin (if x < 0 then - y else y))"

definition float32 :: "real \<Rightarrow> jsnum" where
  "float32 = float_round 24 149 128"

definition float64 :: "real \<Rightarrow> jsnum" where
  "float64 = float_round 53 1074 1024"

text \<open>The value that a \<^verbatim>\<open>Float32Array\<close> holds after a number is stored in it
  (\<^verbatim>\<open>Math.fround\<close>).\<close>

fun Math_fround :: "jsnum \<Rightarrow> jsnum" where
  "Math_fround (Fin x) = float32 x"
| "Math_fround v = v"

text \<open>The product \<^verbatim>\<open>a * b\<close> of two numbers: the exact product rounded to double precision;
  zero times an infinity is NaN.\<close>

fun jsign :: "jsnum \<Rightarrow> int" where
  "jsign (Fin x) = (if 0 < x then 1 else if x < 0 then - 1 else 0)"
| "jsign PInf = 1"
| "jsign NInf = - 1"
| "jsign NaN = 0"

fun double_mul :: "jsnum \<Rightarrow> jsnum \<Rightarrow> jsnum" where
  "double_mul (Fin a) (Fin b) = float64 (a * b)"
| "double_mul a b =
     (if a = NaN \<or> b = NaN \<or> jsign a * jsign b = 0 then NaN
      else if 0 < jsign a * jsign b then PInf else NInf)"

text \<open>The quotient \<^verbatim>\<open>a / c\<close> of a number by a positive constant \<open>c\<close>.\<close>

fun double_div_by :: "real \<Rightarrow> jsnum \<Rightarrow> jsnum" where
  "double_div_by c (Fin a) = float64 (a / c)"
| "double_div_by c v = v"

text \<open>
  The conversions between strings and numbers are built-ins of the language, not code of the
  repository. They are parameters of the model: \<open>Number_of_string\<close> is the \<^verbatim>\<open>ToNumber\<close>
  conversion that a comparison applies to a string operand, \<open>parseFloat_of_string\<close> is
  \<^verbatim>\<open>parseFloat\<close> on a string, and \<open>String_of_number\<close> is \<^verbatim>\<open>String\<close> on a number.
\<close>

record js_env =
  Number_of_string :: "string \<Rightarrow> jsnum"
  parseFloat_of_string :: "string \<Rightarrow> jsnum"
  String_of_number :: "jsnum \<Rightarrow> string"

text \<open>Truthiness, as used by \<^verbatim>\<open>x || ''\<close> and \<^verbatim>\<open>if (val)\<close>.\<close>

fun truthy :: "jsval \<Rightarrow> bool" where
  "truthy (JNum (Fin r)) = (r \<noteq> 0)"
| "truthy (JNum NaN) = False"
| "truthy (JNum _) = True"
| "truthy (JStr s) = (s \<noteq> [])"
| "truthy JUndefined = False"
| "truthy JNull = False"

fun ToNumber :: "js_env \<Rightarrow> jsval \<Rightarrow> jsnum" where
  "ToNumber env (JNum n) = n"
| "ToNumber env (JStr s) = Number_of_string env s"
| "ToNumber env JUndefined = NaN"
| "ToNumber env JNull = Fin 0"

text \<open>Reading an element of an array: \<^verbatim>\<open>undefined\<close> beyond the end.\<close>

definition js_nth :: "jsval list \<Rightarrow> nat \<Rightarrow> jsval" where
  "js_nth xs i = (if i < length xs then xs ! i else JUndefined)"

section \<open>The row table and the filter pipeline\<close>

type_synonym row = "string \<rightharpoonup> jsval"

text \<open>\<^verbatim>\<open>point[name]\<close>: a key that was never assigned reads as \<^verbatim>\<open>undefined\<close>.\<close>

definition point_get :: "row \<Rightarrow> string \<Rightarrow> jsval" where
  "point_get point name = (case point name of None \<Rightarrow> JUndefined | Some v \<Rightarrow> v)"

record crange =
  rmin :: jsnum
  rmax :: jsnum

text \<open>
  A filter object \<^verbatim>\<open>{ id, attribute, type, values, range }\<close>. A new filter has the attribute
  \<^verbatim>\<open>''\<close> and \<^verbatim>\<open>null\<close> in the three other fields; \<open>None\<close> stands for \<^verbatim>\<open>null\<close>. The selected
  values are a \<^verbatim>\<open>Set\<close> of strings (they are copied from \<^verbatim>\<open>attributeValues\<close> or read from the
  check boxes).
\<close>

record jsfilter =
  fid :: string
  attribute :: string
  ftype :: "string option"
  fvalues :: "string set option"
  frange :: "crange option"

text \<open>The test of the continuous branch of \<^verbatim>\<open>updateFilter\<close>:
  \<^verbatim>\<open>value !== null && value !== undefined && value >= minVal && value <= maxVal\<close>.\<close>

definition continuous_test :: "js_env \<Rightarrow> crange \<Rightarrow> jsval \<Rightarrow> bool" where
  "continuous_test env r v =
     (v \<noteq> JNull \<and> v \<noteq> JUndefined \<and> num_le (rmin r) (ToNumber env v) \<and> num_le (ToNumber env v) (rmax r))"

text \<open>The test of the categorical branch: \<^verbatim>\<open>filter.values.has(point[filter.attribute] || '')\<close>.
  A set of strings has no member that is not a string.\<close>

definition categorical_test :: "string set \<Rightarrow> jsval \<Rightarrow> bool" where
  "categorical_test S v =
     (case (if truthy v then v else JStr []) of JStr s \<Rightarrow> s \<in> S | _ \<Rightarrow> False)"

text \<open>
  One pass of the loop \<^verbatim>\<open>for (const filter of activeFilters)\<close> over the candidate indices:
  a filter without attribute or type is skipped, a continuous filter with a range and a
  categorical filter with a non-empty value set keep the candidates that pass their test, and
  any other filter is skipped as invalid.
\<close>

definition applyFilter :: "js_env \<Rightarrow> row list \<Rightarrow> jsfilter \<Rightarrow> nat list \<Rightarrow> nat list" where
  "applyFilter env allData f candidateIndices =
     (if attribute f = [] \<or> ftype f = None \<or> ftype f = Some [] then candidateIndices
      else if ftype f = Some ''continuous'' \<and> frange f \<noteq> None then
        filter (\<lambda>idx. continuous_test env (the (frange f)) (point_get (allData ! idx) (attribute f)))
          candidateIndices
      else if ftype f = Some ''categorical'' \<and> fvalues f \<noteq> None \<and> the (fvalues f) \<noteq> {} then
        filter (\<lambda>idx. categorical_test (the (fvalues f)) (point_get (allData ! idx) (attribute f)))
          candidateIndices
      else candidateIndices)"

text \<open>
  The index computation of \<^verbatim>\<open>updateFilter\<close>: with no filter every index is visible, otherwise
  the candidates start as all indices and each filter is applied in list order. The result is
  stored in a \<^verbatim>\<open>Uint32Array\<close>; a JavaScript array has fewer than \<open>2^32\<close> elements, so every
  index fits and the conversion changes nothing: indices are natural numbers here.
\<close>

definition recompute :: "js_env \<Rightarrow> row list \<Rightarrow> jsfilter list \<Rightarrow> nat list" where
  "recompute env allData activeFilters =
     (if activeFilters = [] then [0..<length allData]
      else fold (applyFilter env allData) activeFilters [0..<length allData])"

text \<open>Whether a filter lets a row through, whatever the position of the filter in the list.\<close>

definition passes :: "js_env \<Rightarrow> jsfilter \<Rightarrow> row \<Rightarrow> bool" where
  "passes env f point =
     (if attribute f = [] \<or> ftype f = None \<or> ftype f = Some [] then True
      else if ftype f = Some ''continuous'' \<and> frange f \<noteq> None then
        continuous_test env (the (frange f)) (point_get point (attribute f))
      else if ftype f = Some ''categorical'' \<and> fvalues f \<noteq> None \<and> the (fvalues f) \<noteq> {} then
        categorical_test (the (fvalues f)) (point_get point (attribute f))
      else True)"

section \<open>The chunked store\<close>

text \<open>
  The zarr store is reached through \<^verbatim>\<open>zarr.open(root.resolve(path))\<close> followed by
  \<^verbatim>\<open>zarr.get\<close>. The model sees the store through these requests: for a path, the payload that
  the two calls deliver, or \<open>None\<close> when one of them throws. The maps are typed by what the
  array at the path holds: \<open>int_array\<close> for integer typed arrays (categorical codes and the
  \<^verbatim>\<open>indptr\<close> and \<^verbatim>\<open>indices\<close> arrays of the matrix), \<open>num_array\<close> for the values of the
  matrix (a typed array of numbers, of any width), \<open>val_array\<close> for column arrays (numbers or
  strings). For a two-dimensional embedding,
  \<open>nd_shape\<close> is the \<^verbatim>\<open>shape\<close> of the opened array and \<open>nd_column k\<close> the flat data of the
  slice \<^verbatim>\<open>[:, k:k+1]\<close>, \<open>None\<close> when that read throws. \<open>chunk_files emb k\<close> lists the contents
  of the chunk files \<^verbatim>\<open>obsm/emb/k.0\<close>, \<^verbatim>\<open>obsm/emb/k.1\<close>, \<dots> up to the first one that is missing:
  a store holds finitely many files.
\<close>

record zarr_nd =
  nd_shape :: "nat list"
  nd_column :: "nat \<Rightarrow> jsval list option"

record zstore =
  int_array :: "string \<rightharpoonup> int list"
  num_array :: "string \<rightharpoonup> jsnum list"
  val_array :: "string \<rightharpoonup> jsval list"
  nd_array :: "string \<rightharpoonup> zarr_nd"
  chunk_files :: "string \<Rightarrow> nat \<Rightarrow> jsval list list"

datatype js_error = FetchError | ReferenceError | Error string

text \<open>\<^verbatim>\<open>loadZarrArray\<close> logs the error and throws it again.\<close>

definition loadZarrArray :: "zstore \<Rightarrow> string \<Rightarrow> js_error + jsval list" where
  "loadZarrArray zroot path =
     (case val_array zroot path of None \<Rightarrow> Inl FetchError | Some d \<Rightarrow> Inr d)"

text \<open>\<^verbatim>\<open>categories.data[code]\<close> for an integer code: \<^verbatim>\<open>undefined\<close> outside the array.\<close>

definition index_by_code :: "jsval list \<Rightarrow> int \<Rightarrow> jsval" where
  "index_by_code categories code =
     (if 0 \<le> code \<and> nat code < length categories then categories ! nat code else JUndefined)"

definition loadCategoricalColumn :: "zstore \<Rightarrow> string \<Rightarrow> js_error + jsval list" where
  "loadCategoricalColumn zroot basePath =
     (case int_array zroot (basePath @ ''/codes'') of
        None \<Rightarrow> Inl FetchError
      | Some codes \<Rightarrow>
         (case val_array zroot (basePath @ ''/categories'') of
            None \<Rightarrow> Inl FetchError
          | Some categories \<Rightarrow> Inr (map (index_by_code categories) codes)))"

section \<open>The lazy column loader\<close>

record colmeta =
  mtype :: string
  encodingType :: string

record app_state =
  zarrRoot :: "zstore option"
  columnMetadata :: "string \<rightharpoonup> colmeta"
  loadedColumns :: "string set"
  allData :: "row list"
  continuousRanges :: "string \<rightharpoonup> crange"
  attributeValues :: "string \<rightharpoonup> string set"
  activeFilters :: "jsfilter list"
  visibleIndices :: "nat list"

text \<open>\<^verbatim>\<open>typeof rawVal === 'number' ? rawVal : parseFloat(rawVal)\<close>; \<^verbatim>\<open>parseFloat\<close> converts
  its argument to a string first, and neither \<^verbatim>\<open>"undefined"\<close> nor \<^verbatim>\<open>"null"\<close> parses.\<close>

fun to_float :: "js_env \<Rightarrow> jsval \<Rightarrow> jsnum" where
  "to_float env (JNum n) = n"
| "to_float env (JStr s) = parseFloat_of_string env s"
| "to_float env JUndefined = NaN"
| "to_float env JNull = NaN"

text \<open>\<^verbatim>\<open>String(v || '')\<close>.\<close>

fun String_or_empty :: "js_env \<Rightarrow> jsval \<Rightarrow> string" where
  "String_or_empty env (JStr s) = s"
| "String_or_empty env (JNum n) = (if truthy (JNum n) then String_of_number env n else [])"
| "String_or_empty env JUndefined = []"
| "String_or_empty env JNull = []"

text \<open>One iteration of the numeric loop (lines 837 to 845): store the value in row \<open>i\<close> and
  feed it to the running minimum and maximum unless it is NaN.\<close>

definition numeric_step :: "js_env \<Rightarrow> jsval list \<Rightarrow> string \<Rightarrow> nat \<Rightarrow> row list \<times> crange \<Rightarrow> row list \<times> crange" where
  "numeric_step env vals colName i st =
     (let rows = fst st; rng = snd st;
          val = to_float env (js_nth vals i)
      in (rows[i := (rows ! i)(colName \<mapsto> JNum val)],
          if val \<noteq> NaN
          then \<lparr>rmin = Math_min (rmin rng) val, rmax = Math_max (rmax rng) val\<rparr>
          else rng))"

text \<open>One iteration of the categorical loop (lines 854 to 860).\<close>

definition categorical_step :: "js_env \<Rightarrow> jsval list \<Rightarrow> string \<Rightarrow> nat \<Rightarrow> row list \<times> string set \<Rightarrow> row list \<times> string set" where
  "categorical_step env vals colName i st =
     (let rows = fst st; attrValues = snd st;
          val = String_or_empty env (js_nth vals i)
      in (rows[i := (rows ! i)(colName \<mapsto> JStr val)],
          if val \<noteq> [] then insert val attrValues else attrValues))"

text \<open>
  \<^verbatim>\<open>ensureColumnLoaded\<close>. The result is the error that escapes to the caller, if any, and the
  state left behind. The constant \<^verbatim>\<open>isNumericData\<close> is declared inside the \<^verbatim>\<open>try\<close> block, so the
  \<^verbatim>\<open>catch\<close> block that reads it is outside its scope: the first iteration of the loop that
  fills in the defaults throws a \<^verbatim>\<open>ReferenceError\<close> before it assigns anything, and with no row
  the loop body is never entered. The only statement of the \<^verbatim>\<open>try\<close> block that can throw is
  the categorical fetch; a failure of the plain array fetch is caught by the inner handler.
\<close>

definition fetch_values :: "zstore \<Rightarrow> colmeta \<Rightarrow> string \<Rightarrow> nat \<Rightarrow> js_error + jsval list" where
  "fetch_values zroot metadata colName nCells =
     (let isNumericData = (mtype metadata = ''continuous'') in
      if encodingType metadata = ''categorical'' then loadCategoricalColumn zroot (''obs/'' @ colName)
      else (case loadZarrArray zroot (''obs/'' @ colName) of
              Inr colData \<Rightarrow> Inr colData
            | Inl numError \<Rightarrow> Inr (replicate nCells (if isNumericData then JNum (Fin 0) else JStr []))))"

definition store_numeric :: "js_env \<Rightarrow> jsval list \<Rightarrow> string \<Rightarrow> app_state \<Rightarrow> app_state" where
  "store_numeric env vals colName s =
     (let nCells = length (allData s);
          rng = (case continuousRanges s colName of
                   None \<Rightarrow> \<lparr>rmin = PInf, rmax = NInf\<rparr> | Some r \<Rightarrow> r);
          res = fold (numeric_step env vals colName) [0..<nCells] (allData s, rng)
      in s\<lparr>allData := fst res, continuousRanges := (continuousRanges s)(colName \<mapsto> snd res)\<rparr>)"

definition store_categorical :: "js_env \<Rightarrow> jsval list \<Rightarrow> string \<Rightarrow> app_state \<Rightarrow> app_state" where
  "store_categorical env vals colName s =
     (let nCells = length (allData s);
          attrValues = (case attributeValues s colName of None \<Rightarrow> {} | Some S \<Rightarrow> S);
          res = fold (categorical_step env vals colName) [0..<nCells] (allData s, attrValues)
      in s\<lparr>allData := fst res, attributeValues := (attributeValues s)(colName \<mapsto> snd res)\<rparr>)"

definition ensureColumnLoaded :: "js_env \<Rightarrow> string \<Rightarrow> app_state \<Rightarrow> js_error option \<times> app_state" where
  "ensureColumnLoaded env colName s =
     (if colName \<in> loadedColumns s then (None, s)
      else case zarrRoot s of
        None \<Rightarrow> (None, s)
      | Some zroot \<Rightarrow>
         (case columnMetadata s colName of
            None \<Rightarrow> (None, s)
          | Some metadata \<Rightarrow>
             (let nCells = length (allData s) in
              case fetch_values zroot metadata colName nCells of
                Inr vals \<Rightarrow>
                  (let s' = (if mtype metadata = ''continuous''
                             then store_numeric env vals colName s
                             else store_categorical env vals colName s)
                   in (None, s'\<lparr>loadedColumns := insert colName (loadedColumns s')\<rparr>))
              | Inl error \<Rightarrow>
                  (if 0 < nCells then (Some ReferenceError, s)
                   else (None, s\<lparr>loadedColumns := insert colName (loadedColumns s)\<rparr>)))))"

text \<open>The sequential loop of \<^verbatim>\<open>ensureColumnsLoaded\<close>; an error of one load ends it.\<close>

fun load_each :: "js_env \<Rightarrow> string list \<Rightarrow> app_state \<Rightarrow> js_error option \<times> app_state" where
  "load_each env [] s = (None, s)"
| "load_each env (colName # rest) s =
     (case ensureColumnLoaded env colName s of
        (Some e, s') \<Rightarrow> (Some e, s')
      | (None, s') \<Rightarrow> load_each env rest s')"

definition ensureColumnsLoaded :: "js_env \<Rightarrow> string list \<Rightarrow> app_state \<Rightarrow> js_error option \<times> app_state" where
  "ensureColumnsLoaded env colNames s =
     (let toLoad = filter (\<lambda>col. col \<notin> loadedColumns s) colNames
      in if toLoad = [] then (None, s) else load_each env toLoad s)"

text \<open>
  \<^verbatim>\<open>updateFilter\<close>, up to the call of \<^verbatim>\<open>createPointCloud\<close> (rendering). When a column load
  throws, the function is left before \<^verbatim>\<open>visibleIndices\<close> is assigned.
\<close>

definition updateFilter :: "js_env \<Rightarrow> app_state \<Rightarrow> js_error option \<times> app_state" where
  "updateFilter env s =
     (if activeFilters s = [] then (None, s\<lparr>visibleIndices := [0..<length (allData s)]\<rparr>)
      else
        (let candidateIndices = [0..<length (allData s)];
             filterColumns = map attribute
               (filter (\<lambda>f. attribute f \<noteq> [] \<and> ftype f \<noteq> None \<and> ftype f \<noteq> Some []) (activeFilters s))
         in case ensureColumnsLoaded env filterColumns s of
              (Some e, s') \<Rightarrow> (Some e, s')
            | (None, s') \<Rightarrow>
                (None, s'\<lparr>visibleIndices :=
                   fold (applyFilter env (allData s')) (activeFilters s') candidateIndices\<rparr>)))"

section \<open>Coordinate values\<close>

text \<open>A coordinate source descriptor. \<open>columnName\<close> is \<^verbatim>\<open>null\<close> for a dimension of an array
  embedding; \<open>path\<close> is used by descriptors of the kind \<^verbatim>\<open>'obs'\<close> only.\<close>

record coordSource =
  source :: string
  path :: string
  embedding :: string
  columnIndex :: nat
  columnName :: "string option"

text \<open>The loop \<^verbatim>\<open>while (result.length < nCells)\<close> over the chunk files: a chunk that cannot
  be loaded ends the loop.\<close>

fun load_chunks :: "jsval list list \<Rightarrow> nat \<Rightarrow> jsval list \<Rightarrow> jsval list" where
  "load_chunks [] nCells result = result"
| "load_chunks (chunk # rest) nCells result =
     (if length result < nCells then load_chunks rest nCells (result @ chunk) else result)"

text \<open>The attempt to read the column from a two-dimensional array; \<open>None\<close> when the code falls
  through to the chunk files (the array cannot be opened, is not two-dimensional, or the read
  throws).\<close>

definition load_2d :: "zstore \<Rightarrow> string \<Rightarrow> nat \<Rightarrow> jsval list option" where
  "load_2d zroot embName colIdx =
     (case nd_array zroot (''obsm/'' @ embName) of
        None \<Rightarrow> None
      | Some fullArray \<Rightarrow>
          (if length (nd_shape fullArray) = 2 then
             (case nd_column fullArray colIdx of
                None \<Rightarrow> None
              | Some colData \<Rightarrow> Some (map (js_nth colData) [0..<nd_shape fullArray ! 0]))
           else None))"

text \<open>Loading by dimension index (lines 1218 to 1264), which may throw.\<close>

definition load_by_index :: "zstore \<Rightarrow> string \<Rightarrow> nat \<Rightarrow> nat \<Rightarrow> js_error + jsval list" where
  "load_by_index zroot embName colIdx nCells =
     (case load_2d zroot embName colIdx of
        Some result \<Rightarrow> Inr result
      | None \<Rightarrow>
          (let result = load_chunks (chunk_files zroot embName colIdx) nCells [] in
           if length result \<ge> nCells then Inr (take nCells result)
           else if length result > 0 then Inr (result @ replicate (nCells - length result) (JNum (Fin 0)))
           else Inl (Error ''Could not load any chunks'')))"

text \<open>The attempt to read a named column of a dataframe embedding; \<open>None\<close> when there is no
  column name or the read throws.\<close>

definition load_by_name :: "zstore \<Rightarrow> coordSource \<Rightarrow> jsval list option" where
  "load_by_name zroot coordSource =
     (case columnName coordSource of
        None \<Rightarrow> None
      | Some name \<Rightarrow>
          (if name = [] then None
           else val_array zroot (''obsm/'' @ embedding coordSource @ ''/'' @ name)))"

definition loadCoordinateValues :: "zstore \<Rightarrow> coordSource \<Rightarrow> nat \<Rightarrow> js_error + jsval list" where
  "loadCoordinateValues zroot coordSource nCells =
     (if source coordSource = ''obs'' then
        (case loadZarrArray zroot (''obs/'' @ path coordSource) of
           Inr colData \<Rightarrow> Inr colData
         | Inl e \<Rightarrow> Inr (replicate nCells (JNum (Fin 0))))
      else if source coordSource = ''obsm'' then
        (case load_by_name zroot coordSource of
           Some colData \<Rightarrow> Inr colData
         | None \<Rightarrow>
            (case load_by_index zroot (embedding coordSource) (columnIndex coordSource) nCells of
               Inr result \<Rightarrow> Inr result
             | Inl e \<Rightarrow> Inr (replicate nCells (JNum (Fin 0)))))
      else Inr (replicate nCells (JNum (Fin 0))))"

section \<open>Gene expression from the sparse matrix\<close>

text \<open>
  \<^verbatim>\<open>sparseMatrix\<close> holds the gene names (\<^verbatim>\<open>null\<close> until they are loaded) and the shape.
  \<^verbatim>\<open>cachedZarrArrays\<close> holds the data of \<^verbatim>\<open>indptr\<close> and the handles of the two other arrays; a
  handle is modelled by the array it gives access to.
\<close>

record sparse_matrix =
  geneNames :: "string list option"
  shape :: "nat list"

record zarr_cache =
  indptr :: "int list"
  indicesArr :: "int list"
  dataArr :: "jsnum list"

datatype fetch = Open string | Get string | GetSlice string int int

text \<open>A read of the slice \<^verbatim>\<open>zarr.slice(start, stop)\<close> of a one-dimensional array: bounds are
  clipped to the array, a negative bound counts from its end.\<close>

definition zarr_slice :: "int \<Rightarrow> int \<Rightarrow> 'a list \<Rightarrow> 'a list" where
  "zarr_slice start stop xs =
     (let n = int (length xs);
          a = (if start < 0 then max 0 (start + n) else min start n);
          b = (if stop < 0 then max 0 (stop + n) else min stop n)
      in take (nat (b - a)) (drop (nat a) xs))"

text \<open>An assignment \<^verbatim>\<open>result[cellIdx] = v\<close> to a \<^verbatim>\<open>Float32Array\<close>: the value is rounded
  to single precision, and the assignment is ignored outside the array.\<close>

definition typed_set :: "jsnum list \<Rightarrow> int \<Rightarrow> jsnum \<Rightarrow> jsnum list" where
  "typed_set result cellIdx v =
     (if 0 \<le> cellIdx \<and> nat cellIdx < length result then result[nat cellIdx := Math_fround v]
      else result)"

text \<open>The loop over the fetched indices; a missing data entry reads as \<^verbatim>\<open>undefined\<close> and is
  stored as NaN.\<close>

fun scatter :: "int list \<Rightarrow> jsnum list \<Rightarrow> jsnum list \<Rightarrow> jsnum list" where
  "scatter [] geneData result = result"
| "scatter (cellIdx # rest) geneData result =
     scatter rest (tl geneData)
       (typed_set result cellIdx (case geneData of [] \<Rightarrow> NaN | v # _ \<Rightarrow> v))"

text \<open>Opening the three arrays and reading \<^verbatim>\<open>indptr\<close> on the first call; the requests made
  are logged.\<close>

definition init_cache :: "zstore \<Rightarrow> zarr_cache option \<Rightarrow> (js_error + zarr_cache) \<times> fetch list" where
  "init_cache zroot cachedZarrArrays =
     (case cachedZarrArrays of
        Some c \<Rightarrow> (Inr c, [])
      | None \<Rightarrow>
         (case int_array zroot ''X/indptr'' of
            None \<Rightarrow> (Inl FetchError, [Open ''X/indptr''])
          | Some ip \<Rightarrow>
             (case int_array zroot ''X/indices'' of
                None \<Rightarrow> (Inl FetchError, [Open ''X/indptr'', Open ''X/indices''])
              | Some ix \<Rightarrow>
                 (case num_array zroot ''X/data'' of
                    None \<Rightarrow> (Inl FetchError, [Open ''X/indptr'', Open ''X/indices'', Open ''X/data''])
                  | Some d \<Rightarrow>
                     (Inr \<lparr>indptr = ip, indicesArr = ix, dataArr = d\<rparr>,
                      [Open ''X/indptr'', Open ''X/indices'', Open ''X/data'', Get ''X/indptr''])))))"

text \<open>\<^verbatim>\<open>indptr[k]\<close>, \<^verbatim>\<open>undefined\<close> beyond the end, and \<^verbatim>\<open>end > start\<close>, false when a side is
  \<^verbatim>\<open>undefined\<close>.\<close>

definition int_nth :: "int list \<Rightarrow> nat \<Rightarrow> int option" where
  "int_nth xs k = (if k < length xs then Some (xs ! k) else None)"

fun js_gt :: "int option \<Rightarrow> int option \<Rightarrow> bool" where
  "js_gt (Some a) (Some b) = (a > b)"
| "js_gt _ _ = False"

text \<open>
  \<^verbatim>\<open>getGeneExpression\<close>: the returned value (\<open>Inr None\<close> is \<^verbatim>\<open>null\<close>), the cache afterwards and
  the requests made to the store.
\<close>

definition getGeneExpression ::
  "zstore option \<Rightarrow> sparse_matrix \<Rightarrow> zarr_cache option \<Rightarrow> string
     \<Rightarrow> (js_error + jsnum list option) \<times> zarr_cache option \<times> fetch list" where
  "getGeneExpression zarrRoot' sparseMatrix cachedZarrArrays geneName =
     (case (geneNames sparseMatrix, zarrRoot') of
        (Some names, Some zroot) \<Rightarrow>
          (if geneName \<notin> set names then (Inr None, cachedZarrArrays, [])
           else
             (let geneIdx = length (takeWhile (\<lambda>g. g \<noteq> geneName) names);
                  nCells = (case shape sparseMatrix of [] \<Rightarrow> 0 | n # _ \<Rightarrow> n);
                  result = replicate nCells (Fin 0)
              in case init_cache zroot cachedZarrArrays of
                   (Inl e, reqs) \<Rightarrow> (Inl e, cachedZarrArrays, reqs)
                 | (Inr c, reqs) \<Rightarrow>
                     (let start = int_nth (indptr c) geneIdx;
                          stop = int_nth (indptr c) (geneIdx + 1)
                      in if js_gt stop start then
                           (let geneIndices = zarr_slice (the start) (the stop) (indicesArr c);
                                geneData = zarr_slice (the start) (the stop) (dataArr c)
                            in (Inr (Some (scatter geneIndices geneData result)), Some c,
                                reqs @ [GetSlice ''X/indices'' (the start) (the stop),
                                       GetSlice ''X/data'' (the start) (the stop)]))
                         else (Inr (Some result), Some c, reqs))))
      | _ \<Rightarrow> (Inr None, cachedZarrArrays, []))"

section \<open>Sampling the visible indices\<close>

definition MAX_POINTS :: int where
  "MAX_POINTS = 1000000"

text \<open>The value of \<^verbatim>\<open>i + Math.floor(v)\<close> as an array index, for a finite \<open>v\<close> that is not
  negative.\<close>

fun floor_offset :: "jsnum \<Rightarrow> nat" where
  "floor_offset (Fin y) = nat \<lfloor>y\<rfloor>"
| "floor_offset v = 0"

text \<open>
  The partial Fisher-Yates shuffle of \<^verbatim>\<open>createPointCloud\<close>. \<open>random i\<close> is the value that
  \<^verbatim>\<open>Math.random()\<close> returns in iteration \<open>i\<close>: a double that is at least 0 and less than 1,
  hence at most \<open>1 - 2^-53\<close>. Its product with the number of remaining elements is the rounded
  product of doubles. For such draws \<open>j\<close> stays inside the array, and the model of the swap is
  meant for such \<open>j\<close> only.
\<close>

function shuffle :: "(nat \<Rightarrow> real) \<Rightarrow> jsnum \<Rightarrow> nat \<Rightarrow> nat list \<Rightarrow> nat list" where
  "shuffle random targetCount i allVisibleIndices =
     (if num_lt (Fin (real i)) targetCount \<and> i < length allVisibleIndices then
        (let j = i + floor_offset (double_mul (Fin (random i))
                                     (Fin (real (length allVisibleIndices - i))))
         in shuffle random targetCount (Suc i)
              (allVisibleIndices[i := allVisibleIndices ! j, j := allVisibleIndices ! i]))
      else allVisibleIndices)"
  by pat_completeness auto
termination
  by (relation "measure (\<lambda>(random, targetCount, i, xs). length xs - i)") auto

declare shuffle.simps [simp del]

text \<open>\<^verbatim>\<open>xs.slice(0, k)\<close>: \<open>k\<close> is truncated to an integer, NaN counts as 0, and a negative \<open>k\<close>
  counts from the end.\<close>

fun slice_to :: "'a list \<Rightarrow> jsnum \<Rightarrow> 'a list" where
  "slice_to xs (Fin k) =
     (if k < 0 then take (nat (int (length xs) + \<lceil>k\<rceil>)) xs else take (nat \<lfloor>k\<rfloor>) xs)"
| "slice_to xs PInf = xs"
| "slice_to xs NInf = []"
| "slice_to xs NaN = []"

text \<open>
  The computation of \<^verbatim>\<open>indicesToRender\<close> (lines 2371 to 2399) from the visible indices, the
  sample rate and the cap, which the source fixes to \<^verbatim>\<open>MAX_POINTS\<close>:
  \<^verbatim>\<open>Math.min(Math.floor(visibleCount * sampleRate), MAX_POINTS)\<close> elements are asked for, where
  the product is the rounded product of doubles.
\<close>

definition sample :: "nat list \<Rightarrow> jsnum \<Rightarrow> int \<Rightarrow> (nat \<Rightarrow> real) \<Rightarrow> nat list" where
  "sample visibleIndices' sampleRate cap random =
     (let visibleCount = length visibleIndices';
          targetCount = Math_min (Math_floor (double_mul (Fin (real visibleCount)) sampleRate))
                                 (Fin (of_int cap))
      in if num_le (Fin (real visibleCount)) targetCount then visibleIndices'
         else slice_to (shuffle random targetCount 0 visibleIndices') targetCount)"

text \<open>
  The sample rate of line 2316, \<^verbatim>\<open>Math.max(0.01, Math.min(1, parseInt(value) / 100))\<close>, from
  the number that \<^verbatim>\<open>parseInt\<close> returns for the value of the slider (an integer, or NaN). The
  literal \<^verbatim>\<open>0.01\<close> denotes the double nearest to \<open>1/100\<close>.
\<close>

definition sampleRate_of_slider :: "jsnum \<Rightarrow> jsnum" where
  "sampleRate_of_slider v = Math_max (float64 (1 / 100)) (Math_min (Fin 1) (double_div_by 100 v))"

definition indicesToRender :: "nat list \<Rightarrow> jsnum \<Rightarrow> (nat \<Rightarrow> real) \<Rightarrow> nat list" where
  "indicesToRender visibleIndices' slider random =
     sample visibleIndices' (sampleRate_of_slider slider) MAX_POINTS random"

section \<open>Fixtures for evaluation\<close>

text \<open>The theorems below hold for every interpretation of the built-in conversions. Concrete
  evaluations use this one, and a store without any array.\<close>

definition example_env :: js_env where
  "example_env = \<lparr>Number_of_string = (\<lambda>s. NaN), parseFloat_of_string = (\<lambda>s. NaN),
                   String_of_number = (\<lambda>n. [])\<rparr>"

definition empty_store :: zstore where
  "empty_store = \<lparr>int_array = Map.empty, num_array = Map.empty, val_array = Map.empty,
                   nd_array = Map.empty, chunk_files = (\<lambda>emb k. [])\<rparr>"

text \<open>The state that \<^verbatim>\<open>loadData\<close> leaves for a data set with a continuous column \<^verbatim>\<open>time\<close> and
  a categorical column \<^verbatim>\<open>cell_type\<close>, before any column is loaded: the metadata, the initial
  range and value set of lines 1430 to 1448, and every index visible (lines 1632 to 1636).\<close>

definition example_state :: "zstore \<Rightarrow> row list \<Rightarrow> app_state" where
  "example_state zroot rows =
     \<lparr>zarrRoot = Some zroot,
      columnMetadata = [''time'' \<mapsto> \<lparr>mtype = ''continuous'', encodingType = ''array''\<rparr>,
                        ''cell_type'' \<mapsto> \<lparr>mtype = ''categorical'', encodingType = ''categorical''\<rparr>],
      loadedColumns = {},
      allData = rows,
      continuousRanges = [''time'' \<mapsto> \<lparr>rmin = PInf, rmax = NInf\<rparr>],
      attributeValues = [''cell_type'' \<mapsto> {}],
      activeFilters = [],
      visibleIndices = [0..<length rows]\<rparr>"

text \<open>A matrix of ten cells and two genes: the first gene is expressed in cell 3 (1.5) and in
  cell 7 (2.0), the second gene nowhere.\<close>

definition example_matrix_store :: zstore where
  "example_matrix_store =
     empty_store\<lparr>int_array := [''X/indptr'' \<mapsto> [0, 2, 2], ''X/indices'' \<mapsto> [3, 7]],
                 num_array := [''X/data'' \<mapsto> [Fin (3 / 2), Fin 2]]\<rparr>"

text \<open>A matrix of one cell and one gene whose value, \<open>2^24 + 1\<close>, is a double and an integer
  that single precision does not represent.\<close>

definition wide_matrix_store :: zstore where
  "wide_matrix_store =
     empty_store\<lparr>int_array := [''X/indptr'' \<mapsto> [0, 1], ''X/indices'' \<mapsto> [0]],
                 num_array := [''X/data'' \<mapsto> [Fin 16777217]]\<rparr>"

section \<open>Properties of the filter pipeline\<close>

lemma applyFilter_filter:
  "applyFilter env rows f cand = filter (\<lambda>idx. passes env f (rows ! idx)) cand"
  by (auto simp: applyFilter_def passes_def)

lemma fold_applyFilter:
  "fold (applyFilter env rows) fs cand =
     filter (\<lambda>idx. \<forall>f \<in> set fs. passes env f (rows ! idx)) cand"
proof (induction fs arbitrary: cand)
  case Nil
  show ?case by simp
next
  case (Cons f fs)
  have "fold (applyFilter env rows) (f # fs) cand =
          fold (applyFilter env rows) fs (applyFilter env rows f cand)"
    by simp
  also have "\<dots> = filter (\<lambda>idx. \<forall>g \<in> set fs. passes env g (rows ! idx))
                      (applyFilter env rows f cand)"
    by (rule Cons.IH)
  also have "\<dots> = filter (\<lambda>idx. \<forall>g \<in> set (f # fs). passes env g (rows ! idx)) cand"
    by (simp add: applyFilter_filter)
  finally show ?case .
qed

lemma recompute_filter:
  "recompute env rows fs =
     filter (\<lambda>idx. \<forall>f \<in> set fs. passes env f (rows ! idx)) [0..<length rows]"
  by (simp add: recompute_def fold_applyFilter)

lemma recompute_insert:
  "recompute env rows (fs @ f # gs) =
     filter (\<lambda>i. passes env f (rows ! i)) (recompute env rows (fs @ gs))"
  by (auto simp add: recompute_filter intro: filter_cong)

text \<open>
  C3. Recomputing the visible indices does not depend on the order of the filters: two filter
  lists that are permutations of each other give the same list of indices over the same rows.
\<close>

theorem recompute_order_independent:
  assumes "mset fs = mset gs"
  shows "recompute env rows fs = recompute env rows gs"
proof -
  from assms have "set fs = set gs" by (rule mset_eq_setD)
  then show ?thesis by (simp add: recompute_filter)
qed

theorem recompute_order_independent_witness:
  "mset [\<lparr>fid = ''f1'', attribute = ''t'', ftype = Some ''continuous'', fvalues = None,
           frange = Some \<lparr>rmin = Fin 2, rmax = Fin 5\<rparr>\<rparr>,
         \<lparr>fid = ''f2'', attribute = ''c'', ftype = Some ''categorical'', fvalues = Some {''A''},
           frange = None\<rparr>]
   = mset [\<lparr>fid = ''f2'', attribute = ''c'', ftype = Some ''categorical'', fvalues = Some {''A''},
           frange = None\<rparr>,
         \<lparr>fid = ''f1'', attribute = ''t'', ftype = Some ''continuous'', fvalues = None,
           frange = Some \<lparr>rmin = Fin 2, rmax = Fin 5\<rparr>\<rparr>]
   \<and> recompute example_env
        [[''t'' \<mapsto> JNum (Fin 1), ''c'' \<mapsto> JStr ''A''], [''t'' \<mapsto> JNum (Fin 3), ''c'' \<mapsto> JStr ''B''],
         [''t'' \<mapsto> JNum (Fin 4), ''c'' \<mapsto> JStr ''A'']]
        [\<lparr>fid = ''f1'', attribute = ''t'', ftype = Some ''continuous'', fvalues = None,
           frange = Some \<lparr>rmin = Fin 2, rmax = Fin 5\<rparr>\<rparr>,
         \<lparr>fid = ''f2'', attribute = ''c'', ftype = Some ''categorical'', fvalues = Some {''A''},
           frange = None\<rparr>]
     = recompute example_env
        [[''t'' \<mapsto> JNum (Fin 1), ''c'' \<mapsto> JStr ''A''], [''t'' \<mapsto> JNum (Fin 3), ''c'' \<mapsto> JStr ''B''],
         [''t'' \<mapsto> JNum (Fin 4), ''c'' \<mapsto> JStr ''A'']]
        [\<lparr>fid = ''f2'', attribute = ''c'', ftype = Some ''categorical'', fvalues = Some {''A''},
           frange = None\<rparr>,
         \<lparr>fid = ''f1'', attribute = ''t'', ftype = Some ''continuous'', fvalues = None,
           frange = Some \<lparr>rmin = Fin 2, rmax = Fin 5\<rparr>\<rparr>]"
proof -
  have h: "mset [\<lparr>fid = ''f1'', attribute = ''t'', ftype = Some ''continuous'', fvalues = None,
           frange = Some \<lparr>rmin = Fin 2, rmax = Fin 5\<rparr>\<rparr>,
         \<lparr>fid = ''f2'', attribute = ''c'', ftype = Some ''categorical'', fvalues = Some {''A''},
           frange = None\<rparr>]
   = mset [\<lparr>fid = ''f2'', attribute = ''c'', ftype = Some ''categorical'', fvalues = Some {''A''},
           frange = None\<rparr>,
         \<lparr>fid = ''f1'', attribute = ''t'', ftype = Some ''continuous'', fvalues = None,
           frange = Some \<lparr>rmin = Fin 2, rmax = Fin 5\<rparr>\<rparr>]"
    by simp
  show ?thesis
    using h recompute_order_independent [OF h] by blast
qed

text \<open>
  C4. A configured continuous filter with range \<open>r\<close>, at any position of the filter list, keeps
  exactly those of the indices left by the other filters whose value \<open>v\<close> of the attribute
  satisfies \<open>rmin r \<le> v \<le> rmax r\<close>, both ends included (a string is compared through its
  conversion to a number). A row whose value is missing, \<^verbatim>\<open>null\<close> or NaN is never kept. The
  range \<open>[2, 5]\<close> over the values 1 to 6 keeps the indices 1, 2, 3 and 4.
\<close>

theorem continuous_filter_retains:
  assumes "attribute f \<noteq> []" and "ftype f = Some ''continuous''" and "frange f = Some r"
  shows "recompute env rows (fs @ f # gs) =
           filter (\<lambda>i. case point_get (rows ! i) (attribute f) of
                          JNum v \<Rightarrow> num_le (rmin r) v \<and> num_le v (rmax r)
                        | JStr s \<Rightarrow> num_le (rmin r) (Number_of_string env s)
                                    \<and> num_le (Number_of_string env s) (rmax r)
                        | JUndefined \<Rightarrow> False
                        | JNull \<Rightarrow> False)
             (recompute env rows (fs @ gs))
         \<and> (\<forall>i. point_get (rows ! i) (attribute f) \<in> {JUndefined, JNull, JNum NaN}
                \<longrightarrow> i \<notin> set (recompute env rows (fs @ f # gs)))"
proof -
  have p: "passes env f p =
             (case point_get p (attribute f) of
                JNum v \<Rightarrow> num_le (rmin r) v \<and> num_le v (rmax r)
              | JStr s \<Rightarrow> num_le (rmin r) (Number_of_string env s)
                          \<and> num_le (Number_of_string env s) (rmax r)
              | JUndefined \<Rightarrow> False
              | JNull \<Rightarrow> False)" for p
    using assms by (simp add: passes_def continuous_test_def split: jsval.splits)
  have eq: "recompute env rows (fs @ f # gs) =
              filter (\<lambda>i. passes env f (rows ! i)) (recompute env rows (fs @ gs))"
    by (rule recompute_insert)
  have ex: "i \<notin> set (recompute env rows (fs @ f # gs))"
    if "point_get (rows ! i) (attribute f) \<in> {JUndefined, JNull, JNum NaN}" for i
    using that by (auto simp add: eq p)
  show ?thesis
    using ex by (simp add: eq p)
qed

theorem continuous_filter_retains_witness:
  "attribute \<lparr>fid = ''f'', attribute = ''t'', ftype = Some ''continuous'', fvalues = None,
       frange = Some \<lparr>rmin = Fin 2, rmax = Fin 5\<rparr>\<rparr> \<noteq> []
   \<and> recompute example_env
       [[''t'' \<mapsto> JNum (Fin 1)], [''t'' \<mapsto> JNum (Fin 2)], [''t'' \<mapsto> JNum (Fin 3)],
        [''t'' \<mapsto> JNum (Fin 4)], [''t'' \<mapsto> JNum (Fin 5)], [''t'' \<mapsto> JNum (Fin 6)]]
       [\<lparr>fid = ''f'', attribute = ''t'', ftype = Some ''continuous'', fvalues = None,
         frange = Some \<lparr>rmin = Fin 2, rmax = Fin 5\<rparr>\<rparr>] = [1, 2, 3, 4]"
  using continuous_filter_retains [of
    "\<lparr>fid = ''f'', attribute = ''t'', ftype = Some ''continuous'', fvalues = None,
       frange = Some \<lparr>rmin = Fin 2, rmax = Fin 5\<rparr>\<rparr>"
    "\<lparr>rmin = Fin 2, rmax = Fin 5\<rparr>" example_env
    "[[''t'' \<mapsto> JNum (Fin 1)], [''t'' \<mapsto> JNum (Fin 2)], [''t'' \<mapsto> JNum (Fin 3)],
      [''t'' \<mapsto> JNum (Fin 4)], [''t'' \<mapsto> JNum (Fin 5)], [''t'' \<mapsto> JNum (Fin 6)]]" "[]" "[]"]
  by (simp add: recompute_def point_get_def upt_conv_Cons)

text \<open>
  C5, as amended. A configured categorical filter with a non-empty set \<open>S\<close> of selected values,
  at any position of the filter list, keeps exactly those of the indices left by the other
  filters whose string value is in \<open>S\<close>, where a missing or otherwise falsy value counts as the
  empty string; a row with the value \<^verbatim>\<open>''\<close> is kept only when \<^verbatim>\<open>''\<close> is in \<open>S\<close>. When \<open>S\<close> is
  empty the filter is skipped as invalid and keeps every index. The set \<open>{A, B}\<close> over the
  values A, C, B, A keeps the indices 0, 2 and 3.
\<close>

theorem categorical_filter_retains:
  assumes "attribute f \<noteq> []" and "ftype f = Some ''categorical''" and "fvalues f = Some S"
  shows "(S \<noteq> {} \<longrightarrow>
            recompute env rows (fs @ f # gs) =
              filter (\<lambda>i. case point_get (rows ! i) (attribute f) of
                             JStr s \<Rightarrow> s \<in> S
                           | JNum n \<Rightarrow> \<not> truthy (JNum n) \<and> [] \<in> S
                           | JUndefined \<Rightarrow> [] \<in> S
                           | JNull \<Rightarrow> [] \<in> S)
                (recompute env rows (fs @ gs)))
         \<and> (S = {} \<longrightarrow> recompute env rows (fs @ f # gs) = recompute env rows (fs @ gs))"
proof -
  have p: "passes env f p =
             (if S = {} then True
              else case point_get p (attribute f) of
                     JStr s \<Rightarrow> s \<in> S
                   | JNum n \<Rightarrow> \<not> truthy (JNum n) \<and> [] \<in> S
                   | JUndefined \<Rightarrow> [] \<in> S
                   | JNull \<Rightarrow> [] \<in> S)" for p
    using assms by (auto simp add: passes_def categorical_test_def split: jsval.splits)
  show ?thesis
    by (simp add: recompute_insert p)
qed

theorem categorical_filter_retains_witness:
  "fvalues \<lparr>fid = ''f'', attribute = ''c'', ftype = Some ''categorical'',
       fvalues = Some {''A'', ''B''}, frange = None\<rparr> = Some {''A'', ''B''}
   \<and> recompute example_env
       [[''c'' \<mapsto> JStr ''A''], [''c'' \<mapsto> JStr ''C''], [''c'' \<mapsto> JStr ''B''], [''c'' \<mapsto> JStr ''A'']]
       [\<lparr>fid = ''f'', attribute = ''c'', ftype = Some ''categorical'',
         fvalues = Some {''A'', ''B''}, frange = None\<rparr>] = [0, 2, 3]"
  using categorical_filter_retains [of
    "\<lparr>fid = ''f'', attribute = ''c'', ftype = Some ''categorical'',
       fvalues = Some {''A'', ''B''}, frange = None\<rparr>"
    "{''A'', ''B''}" example_env
    "[[''c'' \<mapsto> JStr ''A''], [''c'' \<mapsto> JStr ''C''], [''c'' \<mapsto> JStr ''B''], [''c'' \<mapsto> JStr ''A'']]"
    "[]" "[]"]
  by (simp add: recompute_def point_get_def upt_conv_Cons)

text \<open>
  C5 as it was stated fails: with an empty set of selected values the filter does not empty the
  view. Over two rows it keeps both indices.
\<close>

theorem categorical_empty_selection_counterexample:
  "recompute example_env [[''c'' \<mapsto> JStr ''A''], [''c'' \<mapsto> JStr ''C'']]
     [\<lparr>fid = ''f'', attribute = ''c'', ftype = Some ''categorical'', fvalues = Some {},
       frange = None\<rparr>] = [0, 1]"
  by (simp add: recompute_def applyFilter_def upt_conv_Cons)

section \<open>Properties of the column loader\<close>

lemma length_numeric_fold:
  "length (fst (fold (numeric_step env vals c) ks st)) = length (fst st)"
  by (induction ks arbitrary: st) (simp_all add: numeric_step_def Let_def)

lemma length_categorical_fold:
  "length (fst (fold (categorical_step env vals c) ks st)) = length (fst st)"
  by (induction ks arbitrary: st) (simp_all add: categorical_step_def Let_def)

lemma ensureColumnLoaded_frame:
  "length (allData (snd (ensureColumnLoaded env c s))) = length (allData s) \<and>
   visibleIndices (snd (ensureColumnLoaded env c s)) = visibleIndices s \<and>
   activeFilters (snd (ensureColumnLoaded env c s)) = activeFilters s"
  by (simp add: ensureColumnLoaded_def store_numeric_def store_categorical_def Let_def
      length_numeric_fold length_categorical_fold split: option.splits sum.splits)

lemma load_each_frame:
  "length (allData (snd (load_each env cs s))) = length (allData s) \<and>
   visibleIndices (snd (load_each env cs s)) = visibleIndices s \<and>
   activeFilters (snd (load_each env cs s)) = activeFilters s"
proof (induction cs arbitrary: s)
  case Nil
  show ?case by simp
next
  case (Cons c cs)
  obtain e s1 where step: "ensureColumnLoaded env c s = (e, s1)"
    by (cases "ensureColumnLoaded env c s")
  have fr: "length (allData s1) = length (allData s) \<and> visibleIndices s1 = visibleIndices s
            \<and> activeFilters s1 = activeFilters s"
    using ensureColumnLoaded_frame [of env c s] step by simp
  show ?case
  proof (cases e)
    case None
    with step fr Cons.IH [of s1] show ?thesis by simp
  next
    case (Some err)
    with step fr show ?thesis by simp
  qed
qed

lemma ensureColumnsLoaded_frame:
  "length (allData (snd (ensureColumnsLoaded env cs s))) = length (allData s) \<and>
   visibleIndices (snd (ensureColumnsLoaded env cs s)) = visibleIndices s \<and>
   activeFilters (snd (ensureColumnsLoaded env cs s)) = activeFilters s"
  by (simp add: ensureColumnsLoaded_def Let_def load_each_frame)

lemma updateFilter_recompute:
  assumes "updateFilter env s = (None, s')"
  shows "visibleIndices s' = recompute env (allData s') (activeFilters s')"
proof (cases "activeFilters s = []")
  case True
  with assms show ?thesis
    by (auto simp add: updateFilter_def recompute_def)
next
  case False
  define cols where "cols = map attribute
     (filter (\<lambda>f. attribute f \<noteq> [] \<and> ftype f \<noteq> None \<and> ftype f \<noteq> Some []) (activeFilters s))"
  obtain e s1 where ld: "ensureColumnsLoaded env cols s = (e, s1)"
    by (cases "ensureColumnsLoaded env cols s")
  have fr: "length (allData s1) = length (allData s)" "activeFilters s1 = activeFilters s"
    using ensureColumnsLoaded_frame [of env cols s] ld by simp_all
  have "e = None"
    using assms False ld by (cases e) (simp_all add: updateFilter_def Let_def cols_def)
  then have "s' = s1\<lparr>visibleIndices :=
               fold (applyFilter env (allData s1)) (activeFilters s1) [0..<length (allData s)]\<rparr>"
    using assms False ld by (simp add: updateFilter_def Let_def cols_def)
  then show ?thesis
    using False fr by (simp add: recompute_def)
qed

text \<open>
  C9. After a run of \<^verbatim>\<open>updateFilter\<close> that completes, the visible indices increase strictly, each
  of them is below the number of rows, and so they are free of duplicates. A run that is ended
  by an error of a column load leaves the visible indices and the number of rows as they were.
\<close>

theorem updateFilter_visible_indices:
  "(fst (updateFilter env s) = None \<longrightarrow>
      sorted_wrt (<) (visibleIndices (snd (updateFilter env s)))
    \<and> (\<forall>i \<in> set (visibleIndices (snd (updateFilter env s))).
          i < length (allData (snd (updateFilter env s))))
    \<and> distinct (visibleIndices (snd (updateFilter env s))))
   \<and> (fst (updateFilter env s) \<noteq> None \<longrightarrow>
        visibleIndices (snd (updateFilter env s)) = visibleIndices s
      \<and> length (allData (snd (updateFilter env s))) = length (allData s))"
proof (cases "activeFilters s = []")
  case True
  then show ?thesis
    by (simp add: updateFilter_def)
next
  case False
  define cols where "cols = map attribute
     (filter (\<lambda>f. attribute f \<noteq> [] \<and> ftype f \<noteq> None \<and> ftype f \<noteq> Some []) (activeFilters s))"
  obtain e s1 where ld: "ensureColumnsLoaded env cols s = (e, s1)"
    by (cases "ensureColumnsLoaded env cols s")
  have fr: "length (allData s1) = length (allData s)" "visibleIndices s1 = visibleIndices s"
    using ensureColumnsLoaded_frame [of env cols s] ld by simp_all
  show ?thesis
  proof (cases e)
    case None
    have "updateFilter env s =
            (None, s1\<lparr>visibleIndices :=
               fold (applyFilter env (allData s1)) (activeFilters s1) [0..<length (allData s)]\<rparr>)"
      using False ld None by (simp add: updateFilter_def Let_def cols_def)
    then show ?thesis
      using fr by (simp add: fold_applyFilter sorted_wrt_filter)
  next
    case (Some err)
    have "updateFilter env s = (Some err, s1)"
      using False ld Some by (simp add: updateFilter_def Let_def cols_def)
    then show ?thesis
      using fr by simp
  qed
qed

theorem updateFilter_visible_indices_witness:
  "fst (updateFilter example_env
     ((example_state empty_store
        [[''time'' \<mapsto> JNum (Fin 1)], [''time'' \<mapsto> JNum (Fin 7)], [''time'' \<mapsto> JNum (Fin 3)]])
      \<lparr>loadedColumns := {''time''},
       activeFilters := [\<lparr>fid = ''f'', attribute = ''time'', ftype = Some ''continuous'',
                           fvalues = None, frange = Some \<lparr>rmin = Fin 0, rmax = Fin 5\<rparr>\<rparr>]\<rparr>)) = None
   \<and> visibleIndices (snd (updateFilter example_env
     ((example_state empty_store
        [[''time'' \<mapsto> JNum (Fin 1)], [''time'' \<mapsto> JNum (Fin 7)], [''time'' \<mapsto> JNum (Fin 3)]])
      \<lparr>loadedColumns := {''time''},
       activeFilters := [\<lparr>fid = ''f'', attribute = ''time'', ftype = Some ''continuous'',
                           fvalues = None, frange = Some \<lparr>rmin = Fin 0, rmax = Fin 5\<rparr>\<rparr>]\<rparr>))) = [0, 2]"
  using updateFilter_visible_indices [of example_env
     "(example_state empty_store
        [[''time'' \<mapsto> JNum (Fin 1)], [''time'' \<mapsto> JNum (Fin 7)], [''time'' \<mapsto> JNum (Fin 3)]])
      \<lparr>loadedColumns := {''time''},
       activeFilters := [\<lparr>fid = ''f'', attribute = ''time'', ftype = Some ''continuous'',
                           fvalues = None, frange = Some \<lparr>rmin = Fin 0, rmax = Fin 5\<rparr>\<rparr>]\<rparr>"]
  by (simp add: example_state_def updateFilter_def ensureColumnsLoaded_def applyFilter_def
      continuous_test_def point_get_def upt_conv_Cons)

text \<open>
  C2, where the code departs from it. For a column with the categorical encoding whose fetch
  fails, in a table with at least one row, \<^verbatim>\<open>ensureColumnLoaded\<close> throws a \<^verbatim>\<open>ReferenceError\<close> to its
  caller and leaves the state as it was: no row receives the attribute and the column is not
  recorded as loaded.
\<close>

theorem categorical_fetch_failure_throws:
  assumes "zarrRoot s = Some zroot" and "colName \<notin> loadedColumns s"
    and "columnMetadata s colName = Some metadata"
    and "encodingType metadata = ''categorical''"
    and "loadCategoricalColumn zroot (''obs/'' @ colName) = Inl e"
    and "allData s \<noteq> []"
  shows "ensureColumnLoaded env colName s = (Some ReferenceError, s)"
  using assms by (simp add: ensureColumnLoaded_def fetch_values_def Let_def)

theorem categorical_fetch_failure_throws_witness:
  "loadCategoricalColumn empty_store (''obs/'' @ ''cell_type'') = Inl FetchError
   \<and> ensureColumnLoaded example_env ''cell_type''
       (example_state empty_store [[''barcode'' \<mapsto> JStr ''c0'']])
     = (Some ReferenceError, example_state empty_store [[''barcode'' \<mapsto> JStr ''c0'']])"
proof -
  have f: "loadCategoricalColumn empty_store (''obs/'' @ ''cell_type'') = Inl FetchError"
    by (simp add: loadCategoricalColumn_def empty_store_def)
  have "ensureColumnLoaded example_env ''cell_type''
       (example_state empty_store [[''barcode'' \<mapsto> JStr ''c0'']])
     = (Some ReferenceError, example_state empty_store [[''barcode'' \<mapsto> JStr ''c0'']])"
    by (rule categorical_fetch_failure_throws
          [where metadata = "\<lparr>mtype = ''categorical'', encodingType = ''categorical''\<rparr>", OF _ _ _ _ f])
       (simp_all add: example_state_def)
  with f show ?thesis by simp
qed

lemma Math_min_zero: "Math_min (Math_min a (Fin 0)) (Fin 0) = Math_min a (Fin 0)"
  by (cases a) (simp_all add: Math_min_def)

lemma Math_max_zero: "Math_max (Math_max a (Fin 0)) (Fin 0) = Math_max a (Fin 0)"
  by (cases a) (simp_all add: Math_max_def)

lemma numeric_step_zero:
  assumes "n < N"
  shows "numeric_step env (replicate N (JNum (Fin 0))) c n (R, rr) =
           (R[n := (R ! n)(c \<mapsto> JNum (Fin 0))],
            \<lparr>rmin = Math_min (rmin rr) (Fin 0), rmax = Math_max (rmax rr) (Fin 0)\<rparr>)"
  using assms by (simp add: numeric_step_def js_nth_def Let_def)

lemma fold_numeric_zero:
  assumes "n \<le> N" and "n \<le> length rows"
  shows "\<exists>R. fold (numeric_step env (replicate N (JNum (Fin 0))) c) [0..<n] (rows, r) =
           (R, if n = 0 then r
               else \<lparr>rmin = Math_min (rmin r) (Fin 0), rmax = Math_max (rmax r) (Fin 0)\<rparr>)
         \<and> length R = length rows
         \<and> (\<forall>i < length rows. R ! i = (if i < n then (rows ! i)(c \<mapsto> JNum (Fin 0)) else rows ! i))"
  using assms
proof (induction n)
  case 0
  show ?case by simp
next
  case (Suc n)
  define rr where "rr = (if n = 0 then r
            else \<lparr>rmin = Math_min (rmin r) (Fin 0), rmax = Math_max (rmax r) (Fin 0)\<rparr>)"
  have n: "n < N" "n < length rows" using Suc.prems by simp_all
  have le: "n \<le> N" "n \<le> length rows" using Suc.prems by simp_all
  obtain R where IH: "fold (numeric_step env (replicate N (JNum (Fin 0))) c) [0..<n] (rows, r) = (R, rr)"
    and len: "length R = length rows"
    and pt: "\<forall>i < length rows. R ! i = (if i < n then (rows ! i)(c \<mapsto> JNum (Fin 0)) else rows ! i)"
    using Suc.IH [OF le] unfolding rr_def by blast
  define R' where "R' = R[n := (R ! n)(c \<mapsto> JNum (Fin 0))]"
  have rng: "\<lparr>rmin = Math_min (rmin rr) (Fin 0), rmax = Math_max (rmax rr) (Fin 0)\<rparr>
             = \<lparr>rmin = Math_min (rmin r) (Fin 0), rmax = Math_max (rmax r) (Fin 0)\<rparr>"
    by (simp add: rr_def Math_min_zero Math_max_zero)
  have "fold (numeric_step env (replicate N (JNum (Fin 0))) c) [0..<Suc n] (rows, r)
          = numeric_step env (replicate N (JNum (Fin 0))) c n (R, rr)"
    by (simp add: IH)
  also have "\<dots> = (R', \<lparr>rmin = Math_min (rmin rr) (Fin 0), rmax = Math_max (rmax rr) (Fin 0)\<rparr>)"
    unfolding R'_def by (rule numeric_step_zero [OF n(1)])
  finally have step: "fold (numeric_step env (replicate N (JNum (Fin 0))) c) [0..<Suc n] (rows, r)
     = (R', \<lparr>rmin = Math_min (rmin r) (Fin 0), rmax = Math_max (rmax r) (Fin 0)\<rparr>)"
    by (simp only: rng)
  have len': "length R' = length rows"
    by (simp add: R'_def len)
  have pt': "R' ! i = (if i < Suc n then (rows ! i)(c \<mapsto> JNum (Fin 0)) else rows ! i)"
    if "i < length rows" for i
  proof (cases "i = n")
    case True
    have "R ! n = rows ! n" using pt n by simp
    then show ?thesis using True n len by (simp add: R'_def)
  next
    case False
    have "R' ! i = R ! i" using False by (simp add: R'_def)
    then show ?thesis using pt that False by (simp add: less_Suc_eq)
  qed
  show ?case
    using step len' pt' by simp
qed

text \<open>
  C10. Let the table have at least one row, and let the range summary of a continuous column be
  the one that reading the metadata leaves for a column that is not loaded yet
  (\<open>{min: Infinity, max: -Infinity}\<close>, line 1442, or none). When the array fetch of the column fails
  (the inner handler), the load raises no error, every row receives the value 0 for the column,
  the range summary of the column becomes \<open>{min: 0, max: 0}\<close>, and the column is recorded as
  loaded.
\<close>

theorem numeric_fetch_failure_defaults:
  assumes root: "zarrRoot s = Some zroot" and nl: "colName \<notin> loadedColumns s"
    and md: "columnMetadata s colName = Some metadata"
    and ty: "mtype metadata = ''continuous''" and enc: "encodingType metadata \<noteq> ''categorical''"
    and fail: "val_array zroot (''obs/'' @ colName) = None"
    and init: "continuousRanges s colName = None
               \<or> continuousRanges s colName = Some \<lparr>rmin = PInf, rmax = NInf\<rparr>"
    and rows: "allData s \<noteq> []"
  shows "fst (ensureColumnLoaded env colName s) = None
       \<and> length (allData (snd (ensureColumnLoaded env colName s))) = length (allData s)
       \<and> (\<forall>i < length (allData s).
             allData (snd (ensureColumnLoaded env colName s)) ! i
               = (allData s ! i)(colName \<mapsto> JNum (Fin 0)))
       \<and> continuousRanges (snd (ensureColumnLoaded env colName s)) colName
             = Some \<lparr>rmin = Fin 0, rmax = Fin 0\<rparr>
       \<and> colName \<in> loadedColumns (snd (ensureColumnLoaded env colName s))"
proof -
  define n where "n = length (allData s)"
  define r0 where "r0 = (case continuousRanges s colName of
                     None \<Rightarrow> \<lparr>rmin = PInf, rmax = NInf\<rparr> | Some r \<Rightarrow> r)"
  have r0: "r0 = \<lparr>rmin = PInf, rmax = NInf\<rparr>"
    using init by (auto simp add: r0_def)
  have n0: "n \<noteq> 0" using rows by (simp add: n_def)
  have fv: "fetch_values zroot metadata colName n = Inr (replicate n (JNum (Fin 0)))"
    using ty enc fail by (simp add: fetch_values_def loadZarrArray_def)
  obtain R where fold: "fold (numeric_step env (replicate n (JNum (Fin 0))) colName) [0..<n] (allData s, r0)
        = (R, if n = 0 then r0
              else \<lparr>rmin = Math_min (rmin r0) (Fin 0), rmax = Math_max (rmax r0) (Fin 0)\<rparr>)"
    and len: "length R = length (allData s)"
    and pt: "\<forall>i < length (allData s). R ! i = (if i < n then (allData s ! i)(colName \<mapsto> JNum (Fin 0)) else allData s ! i)"
    using fold_numeric_zero [of n n "allData s" env colName r0] by (auto simp add: n_def)
  have rng: "(if n = 0 then r0
              else \<lparr>rmin = Math_min (rmin r0) (Fin 0), rmax = Math_max (rmax r0) (Fin 0)\<rparr>)
           = \<lparr>rmin = Fin 0, rmax = Fin 0\<rparr>"
    using n0 by (simp add: r0 Math_min_def Math_max_def)
  have sn: "store_numeric env (replicate n (JNum (Fin 0))) colName s
            = s\<lparr>allData := R, continuousRanges := (continuousRanges s)(colName \<mapsto>
                 \<lparr>rmin = Fin 0, rmax = Fin 0\<rparr>)\<rparr>"
    using fold rng unfolding store_numeric_def Let_def n_def [symmetric] r0_def [symmetric]
    by simp
  have res: "ensureColumnLoaded env colName s
        = (None, (s\<lparr>allData := R, continuousRanges := (continuousRanges s)(colName \<mapsto>
                 \<lparr>rmin = Fin 0, rmax = Fin 0\<rparr>)\<rparr>)
              \<lparr>loadedColumns := insert colName (loadedColumns s)\<rparr>)"
    using root nl md ty fv sn unfolding ensureColumnLoaded_def Let_def n_def [symmetric]
    by simp
  show ?thesis
    using len pt by (simp add: res n_def)
qed

theorem numeric_fetch_failure_defaults_witness:
  "val_array empty_store (''obs/'' @ ''time'') = None
   \<and> allData (example_state empty_store
                [[''barcode'' \<mapsto> JStr ''c0''], [''barcode'' \<mapsto> JStr ''c1'']]) \<noteq> []
   \<and> fst (ensureColumnLoaded example_env ''time''
            (example_state empty_store [[''barcode'' \<mapsto> JStr ''c0''], [''barcode'' \<mapsto> JStr ''c1'']])) = None
   \<and> allData (snd (ensureColumnLoaded example_env ''time''
            (example_state empty_store [[''barcode'' \<mapsto> JStr ''c0''], [''barcode'' \<mapsto> JStr ''c1'']]))) ! 1
       = [''barcode'' \<mapsto> JStr ''c1'', ''time'' \<mapsto> JNum (Fin 0)]
   \<and> continuousRanges (snd (ensureColumnLoaded example_env ''time''
            (example_state empty_store [[''barcode'' \<mapsto> JStr ''c0''], [''barcode'' \<mapsto> JStr ''c1'']]))) ''time''
       = Some \<lparr>rmin = Fin 0, rmax = Fin 0\<rparr>
   \<and> ''time'' \<in> loadedColumns (snd (ensureColumnLoaded example_env ''time''
            (example_state empty_store [[''barcode'' \<mapsto> JStr ''c0''], [''barcode'' \<mapsto> JStr ''c1'']])))"
proof -
  let ?s = "example_state empty_store [[''barcode'' \<mapsto> JStr ''c0''], [''barcode'' \<mapsto> JStr ''c1'']]"
  have f: "val_array empty_store (''obs/'' @ ''time'') = None"
    by (simp add: empty_store_def)
  have ne: "allData ?s \<noteq> []" by (simp add: example_state_def)
  show ?thesis
    using f ne numeric_fetch_failure_defaults [of ?s empty_store "''time''"
        "\<lparr>mtype = ''continuous'', encodingType = ''array''\<rparr>" example_env, OF _ _ _ _ _ f]
    by (simp add: example_state_def)
qed

section \<open>Properties of the array accessor and the coordinate loader\<close>

text \<open>
  C7, as amended. When the codes and the categories can be fetched, \<^verbatim>\<open>loadCategoricalColumn\<close>
  returns one entry per code, \<open>result[i] = categories[codes[i]]\<close> for a code inside the
  categories array and \<^verbatim>\<open>undefined\<close> for a code outside it; it does not fail on such a code.
\<close>

theorem loadCategoricalColumn_decodes:
  assumes "int_array zroot (basePath @ ''/codes'') = Some codes"
    and "val_array zroot (basePath @ ''/categories'') = Some categories"
  shows "\<exists>result. loadCategoricalColumn zroot basePath = Inr result
           \<and> length result = length codes
           \<and> (\<forall>i < length codes.
                 result ! i = (if 0 \<le> codes ! i \<and> codes ! i < int (length categories)
                               then categories ! nat (codes ! i) else JUndefined))"
  using assms by (auto simp add: loadCategoricalColumn_def index_by_code_def)

theorem loadCategoricalColumn_decodes_witness:
  "loadCategoricalColumn
     (empty_store\<lparr>int_array := [''obs/cell_type/codes'' \<mapsto> [0, 1, 0]],
                  val_array := [''obs/cell_type/categories'' \<mapsto> [JStr ''A'', JStr ''B'']]\<rparr>)
     ''obs/cell_type'' = Inr [JStr ''A'', JStr ''B'', JStr ''A'']"
  using loadCategoricalColumn_decodes [of
     "empty_store\<lparr>int_array := [''obs/cell_type/codes'' \<mapsto> [0, 1, 0]],
                  val_array := [''obs/cell_type/categories'' \<mapsto> [JStr ''A'', JStr ''B'']]\<rparr>"
     "''obs/cell_type''" "[0, 1, 0]" "[JStr ''A'', JStr ''B'']"]
  by (simp add: loadCategoricalColumn_def index_by_code_def empty_store_def)

text \<open>
  C7 as it was stated fails: with the code 5 and a single category the function returns a
  list whose second entry is \<^verbatim>\<open>undefined\<close>, not an error.
\<close>

theorem loadCategoricalColumn_out_of_range_counterexample:
  "loadCategoricalColumn
     (empty_store\<lparr>int_array := [''obs/cell_type/codes'' \<mapsto> [0, 5]],
                  val_array := [''obs/cell_type/categories'' \<mapsto> [JStr ''A'']]\<rparr>)
     ''obs/cell_type'' = Inr [JStr ''A'', JUndefined]"
  by (simp add: loadCategoricalColumn_def index_by_code_def empty_store_def)

lemma load_chunks_take:
  "take n (load_chunks chunks n acc) = take n (acc @ concat chunks)"
  by (induction chunks arbitrary: acc) simp_all

lemma load_chunks_short:
  "length (load_chunks chunks n acc) < n \<Longrightarrow> load_chunks chunks n acc = acc @ concat chunks"
proof (induction chunks arbitrary: acc)
  case Nil
  show ?case by simp
next
  case (Cons c chunks)
  show ?case
  proof (cases "length acc < n")
    case True
    with Cons.prems have "length (load_chunks chunks n (acc @ c)) < n" by simp
    from Cons.IH [OF this] show ?thesis using True by simp
  next
    case False
    with Cons.prems show ?thesis by simp
  qed
qed

lemma load_by_index_chunks:
  assumes "load_2d zroot emb k = None"
  shows "load_by_index zroot emb k n = Inr r \<Longrightarrow>
           r = take n (concat (chunk_files zroot emb k))
               @ replicate (n - length (concat (chunk_files zroot emb k))) (JNum (Fin 0))"
    and "load_by_index zroot emb k n = Inl e \<Longrightarrow> concat (chunk_files zroot emb k) = [] \<and> 0 < n"
proof -
  define cs where "cs = chunk_files zroot emb k"
  define res where "res = load_chunks cs n []"
  have tk: "take n res = take n (concat cs)"
    using load_chunks_take [of n cs "[]"] by (simp add: res_def)
  have sh: "length res < n \<Longrightarrow> res = concat cs"
    using load_chunks_short [of cs n "[]"] by (simp add: res_def)
  have lbi: "load_by_index zroot emb k n =
           (if length res \<ge> n then Inr (take n res)
            else if length res > 0 then Inr (res @ replicate (n - length res) (JNum (Fin 0)))
            else Inl (Error ''Could not load any chunks''))"
    using assms by (simp add: load_by_index_def Let_def res_def cs_def)
  show "load_by_index zroot emb k n = Inr r \<Longrightarrow>
           r = take n (concat (chunk_files zroot emb k))
               @ replicate (n - length (concat (chunk_files zroot emb k))) (JNum (Fin 0))"
  proof -
    assume a: "load_by_index zroot emb k n = Inr r"
    show ?thesis
    proof (cases "length res \<ge> n")
      case True
      then have "length (take n res) = n" by simp
      then have "n \<le> length (concat cs)" using tk
        by (metis length_take min.cobounded1)
      then show ?thesis using a True lbi tk by (simp add: cs_def)
    next
      case False
      then have "res = concat cs" using sh by simp
      then show ?thesis using a False lbi by (auto simp add: cs_def split: if_splits)
    qed
  qed
  show "load_by_index zroot emb k n = Inl e \<Longrightarrow> concat (chunk_files zroot emb k) = [] \<and> 0 < n"
  proof -
    assume a: "load_by_index zroot emb k n = Inl e"
    then have "length res < n" "res = []" using lbi by (auto split: if_splits)
    then show ?thesis using sh by (simp add: cs_def)
  qed
qed

text \<open>
  C8, as amended. \<^verbatim>\<open>loadCoordinateValues\<close> never throws. When the values are assembled from
  chunk files (no named column can be read and the embedding cannot be read as a
  two-dimensional array), the result is the concatenation of the chunks in chunk order, cut to
  \<open>nCells\<close> entries or padded with zeros to \<open>nCells\<close> entries, so its length is exactly
  \<open>nCells\<close>; a failed read of an \<^verbatim>\<open>obs\<close> column and an unknown kind of source give \<open>nCells\<close>
  zeros. An array that is read directly (an \<^verbatim>\<open>obs\<close> column, a named column, a column of a
  two-dimensional array) is returned as it was read, whatever its length.
\<close>

theorem loadCoordinateValues_lengths:
  "(\<exists>result. loadCoordinateValues zroot cs nCells = Inr result)
   \<and> (source cs = ''obsm'' \<and> load_by_name zroot cs = None
        \<and> load_2d zroot (embedding cs) (columnIndex cs) = None \<longrightarrow>
        loadCoordinateValues zroot cs nCells =
          Inr (take nCells (concat (chunk_files zroot (embedding cs) (columnIndex cs)))
               @ replicate (nCells - length (concat (chunk_files zroot (embedding cs) (columnIndex cs))))
                   (JNum (Fin 0)))
        \<and> (\<forall>result. loadCoordinateValues zroot cs nCells = Inr result \<longrightarrow> length result = nCells))
   \<and> (\<forall>colData. source cs = ''obsm'' \<and> load_by_name zroot cs = Some colData \<longrightarrow>
        loadCoordinateValues zroot cs nCells = Inr colData)
   \<and> (\<forall>colData. source cs = ''obs'' \<and> val_array zroot (''obs/'' @ path cs) = Some colData \<longrightarrow>
        loadCoordinateValues zroot cs nCells = Inr colData)
   \<and> (\<forall>colData. source cs = ''obsm'' \<and> load_by_name zroot cs = None
        \<and> load_2d zroot (embedding cs) (columnIndex cs) = Some colData \<longrightarrow>
        loadCoordinateValues zroot cs nCells = Inr colData)
   \<and> ((source cs = ''obs'' \<and> val_array zroot (''obs/'' @ path cs) = None)
        \<or> (source cs \<noteq> ''obs'' \<and> source cs \<noteq> ''obsm'') \<longrightarrow>
        loadCoordinateValues zroot cs nCells = Inr (replicate nCells (JNum (Fin 0))))"
proof -
  have total: "\<exists>result. loadCoordinateValues zroot cs nCells = Inr result"
    by (simp add: loadCoordinateValues_def split: sum.splits option.splits)
  have chunk: "loadCoordinateValues zroot cs nCells =
          Inr (take nCells (concat (chunk_files zroot (embedding cs) (columnIndex cs)))
               @ replicate (nCells - length (concat (chunk_files zroot (embedding cs) (columnIndex cs))))
                   (JNum (Fin 0)))"
    if a: "source cs = ''obsm''" "load_by_name zroot cs = None"
          "load_2d zroot (embedding cs) (columnIndex cs) = None"
  proof (cases "load_by_index zroot (embedding cs) (columnIndex cs) nCells")
    case (Inl e)
    from load_by_index_chunks(2) [OF a(3) Inl]
    have c: "concat (chunk_files zroot (embedding cs) (columnIndex cs)) = []"
      by blast
    have "loadCoordinateValues zroot cs nCells = Inr (replicate nCells (JNum (Fin 0)))"
      using a Inl by (simp add: loadCoordinateValues_def)
    then show ?thesis
      unfolding c by simp
  next
    case (Inr r)
    then show ?thesis
      using a load_by_index_chunks(1) [OF a(3) Inr]
      by (simp add: loadCoordinateValues_def)
  qed
  have named: "loadCoordinateValues zroot cs nCells = Inr colData"
    if "source cs = ''obsm''" "load_by_name zroot cs = Some colData" for colData
    using that by (simp add: loadCoordinateValues_def)
  have obs: "loadCoordinateValues zroot cs nCells = Inr colData"
    if "source cs = ''obs''" "val_array zroot (''obs/'' @ path cs) = Some colData" for colData
    using that by (simp add: loadCoordinateValues_def loadZarrArray_def)
  have twod: "loadCoordinateValues zroot cs nCells = Inr colData"
    if "source cs = ''obsm''" "load_by_name zroot cs = None"
       "load_2d zroot (embedding cs) (columnIndex cs) = Some colData" for colData
    using that by (simp add: loadCoordinateValues_def load_by_index_def)
  have zeros: "loadCoordinateValues zroot cs nCells = Inr (replicate nCells (JNum (Fin 0)))"
    if "(source cs = ''obs'' \<and> val_array zroot (''obs/'' @ path cs) = None)
        \<or> (source cs \<noteq> ''obs'' \<and> source cs \<noteq> ''obsm'')"
    using that by (auto simp add: loadCoordinateValues_def loadZarrArray_def)
  have len: "length result = nCells"
    if "source cs = ''obsm''" "load_by_name zroot cs = None"
       "load_2d zroot (embedding cs) (columnIndex cs) = None"
       "loadCoordinateValues zroot cs nCells = Inr result" for result
    using chunk [OF that(1,2,3)] that(4) by auto
  show ?thesis
    using total chunk named obs twod zeros len by blast
qed

theorem loadCoordinateValues_lengths_witness:
  "loadCoordinateValues
     (empty_store\<lparr>chunk_files := (\<lambda>emb k. if emb = ''X_umap'' \<and> k = 0
                                          then [[JNum (Fin 1), JNum (Fin 2)], [JNum (Fin 3)]] else [])\<rparr>)
     \<lparr>source = ''obsm'', path = [], embedding = ''X_umap'', columnIndex = 0, columnName = None\<rparr> 5
   = Inr [JNum (Fin 1), JNum (Fin 2), JNum (Fin 3), JNum (Fin 0), JNum (Fin 0)]
   \<and> loadCoordinateValues
     (empty_store\<lparr>chunk_files := (\<lambda>emb k. if emb = ''X_umap'' \<and> k = 0
                                          then [[JNum (Fin 1), JNum (Fin 2)], [JNum (Fin 3)]] else [])\<rparr>)
     \<lparr>source = ''obsm'', path = [], embedding = ''X_umap'', columnIndex = 0, columnName = None\<rparr> 2
   = Inr [JNum (Fin 1), JNum (Fin 2)]"
  using loadCoordinateValues_lengths [of
     "empty_store\<lparr>chunk_files := (\<lambda>emb k. if emb = ''X_umap'' \<and> k = 0
                                          then [[JNum (Fin 1), JNum (Fin 2)], [JNum (Fin 3)]] else [])\<rparr>"
     "\<lparr>source = ''obsm'', path = [], embedding = ''X_umap'', columnIndex = 0, columnName = None\<rparr>" 5]
    loadCoordinateValues_lengths [of
     "empty_store\<lparr>chunk_files := (\<lambda>emb k. if emb = ''X_umap'' \<and> k = 0
                                          then [[JNum (Fin 1), JNum (Fin 2)], [JNum (Fin 3)]] else [])\<rparr>"
     "\<lparr>source = ''obsm'', path = [], embedding = ''X_umap'', columnIndex = 0, columnName = None\<rparr>" 2]
  by (simp add: load_by_name_def load_2d_def empty_store_def numeral_eq_Suc)

text \<open>
  C8 as it was stated fails: a named column that holds three values is returned with its three
  values when five cells are asked for.
\<close>

theorem loadCoordinateValues_length_counterexample:
  "loadCoordinateValues
     (empty_store\<lparr>val_array := [''obsm/Global_Spatial/global_x'' \<mapsto> [JNum (Fin 1), JNum (Fin 2), JNum (Fin 3)]]\<rparr>)
     \<lparr>source = ''obsm'', path = [], embedding = ''Global_Spatial'', columnIndex = 0,
       columnName = Some ''global_x''\<rparr> 5
   = Inr [JNum (Fin 1), JNum (Fin 2), JNum (Fin 3)]"
  by (simp add: loadCoordinateValues_def load_by_name_def empty_store_def)

section \<open>Evaluation of the rounding\<close>

lemma bit_length_0: "bit_length 0 = 0"
  by (subst bit_length.simps) simp

lemma bit_length_pos: "0 < n \<Longrightarrow> bit_length n = Suc (bit_length (n div 2))"
  by (subst bit_length.simps) simp

lemmas fl_eval = float_round_def round_half_even_def ilog2_def pow2_def bit_length_0
  bit_length_pos Let_def

lemma float32_three_halves: "float32 (3 / 2) = Fin (3 / 2)"
  by (simp add: float32_def fl_eval)

lemma float32_two: "float32 2 = Fin 2"
  by (simp add: float32_def fl_eval)

lemma float32_wide: "float32 16777217 = Fin 16777216"
  by (simp add: float32_def fl_eval)

lemma float32_tenth: "float32 (1 / 10) = Fin (13421773 / 2 ^ 27)"
  by (simp add: float32_def fl_eval)

lemma float32_overflow: "float32 (2 ^ 128) = PInf"
  by (simp add: float32_def fl_eval)

lemma float64_two: "float64 2 = Fin 2"
  by (simp add: float64_def fl_eval)

lemma float64_hundredth: "float64 (1 / 100) = Fin (5764607523034235 / 2 ^ 59)"
  by (simp add: float64_def fl_eval)

section \<open>Properties of the gene expression resolver\<close>

lemma length_typed_set: "length (typed_set res c v) = length res"
  by (simp add: typed_set_def)

lemma length_scatter: "length (scatter cells ds res) = length res"
  by (induction cells arbitrary: ds res) (simp_all add: length_typed_set)

lemma typed_set_other: "x \<noteq> int c \<Longrightarrow> typed_set res x v ! c = res ! c"
  by (auto simp add: typed_set_def)

lemma typed_set_hit:
  "0 \<le> x \<Longrightarrow> nat x < length res \<Longrightarrow> typed_set res x v ! nat x = Math_fround v"
  by (simp add: typed_set_def)

lemma scatter_other: "int c \<notin> set cells \<Longrightarrow> scatter cells ds res ! c = res ! c"
proof (induction cells arbitrary: ds res)
  case Nil
  show ?case by simp
next
  case (Cons x cells)
  then have "x \<noteq> int c" "int c \<notin> set cells" by auto
  then show ?case
    using Cons.IH by (simp add: typed_set_other)
qed

lemma scatter_hit:
  assumes "distinct cells" and "length cells \<le> length ds"
    and "\<forall>x \<in> set cells. 0 \<le> x \<and> nat x < length res" and "k < length cells"
  shows "scatter cells ds res ! nat (cells ! k) = Math_fround (ds ! k)"
  using assms
proof (induction cells arbitrary: ds res k)
  case Nil
  then show ?case by simp
next
  case (Cons x cells)
  from Cons.prems(2) obtain d ds' where ds: "ds = d # ds'"
    by (cases ds) auto
  have x: "0 \<le> x" "nat x < length res" "x \<notin> set cells"
    using Cons.prems by auto
  show ?case
  proof (cases k)
    case 0
    have "int (nat x) \<notin> set cells" using x by simp
    then have "scatter cells ds' (typed_set res x d) ! nat x = typed_set res x d ! nat x"
      by (rule scatter_other)
    then show ?thesis
      using 0 ds x by (simp add: typed_set_hit)
  next
    case (Suc k')
    have "scatter cells ds' (typed_set res x d) ! nat (cells ! k') = Math_fround (ds' ! k')"
    proof (rule Cons.IH)
      show "distinct cells" using Cons.prems(1) by simp
      show "length cells \<le> length ds'" using Cons.prems(2) ds by simp
      show "\<forall>y \<in> set cells. 0 \<le> y \<and> nat y < length (typed_set res x d)"
        using Cons.prems(3) by (simp add: length_typed_set)
      show "k' < length cells" using Cons.prems(4) Suc by simp
    qed
    then show ?thesis
      using Suc ds by simp
  qed
qed

lemma zarr_slice_nat:
  assumes "s \<le> e" and "e \<le> length xs"
  shows "zarr_slice (int s) (int e) xs = take (e - s) (drop s xs)"
  using assms by (simp add: zarr_slice_def Let_def min_def nat_diff_distrib')

text \<open>
  C1, as amended. Let the gene be among the gene names, at index \<open>g\<close>, let the three arrays of
  the matrix be available (cached or fetched now), and let the column of the gene be
  well-formed: the range \<open>[s, e)\<close> given by \<open>indptr[g]\<close> and \<open>indptr[g+1]\<close> lies inside the index
  and data arrays, and the cell indices in the range are distinct and below the number of
  cells. Then \<^verbatim>\<open>getGeneExpression\<close> returns a vector with one entry per cell, in which
  \<open>result[indices[k]]\<close> is \<open>data[k]\<close> rounded to single precision for every \<open>k\<close> of the range
  (the vector is a \<^verbatim>\<open>Float32Array\<close>), and every other cell is zero. When the range is empty the
  vector is all zero and no slice of the index and data arrays is requested. A gene with 1.5 at
  cell 3 and 2.0 at cell 7, out of ten cells, gives \<open>[0, 0, 0, 1.5, 0, 0, 0, 2.0, 0, 0]\<close>: both
  values are single-precision numbers.
\<close>

theorem getGeneExpression_dense:
  assumes names: "geneNames sm = Some names" "geneName \<in> set names"
    and cache: "init_cache zroot cached = (Inr c, reqs)"
    and g: "g = length (takeWhile (\<lambda>x. x \<noteq> geneName) names)"
    and n: "nCells = (case shape sm of [] \<Rightarrow> 0 | n # _ \<Rightarrow> n)"
    and ptr: "Suc g < length (indptr c)" "indptr c ! g = int s" "indptr c ! Suc g = int e" "s \<le> e"
    and len: "e \<le> length (indicesArr c)" "e \<le> length (dataArr c)"
    and cells: "\<forall>k. s \<le> k \<and> k < e \<longrightarrow> 0 \<le> indicesArr c ! k \<and> indicesArr c ! k < int nCells"
    and dist: "\<forall>k k'. s \<le> k \<and> k < k' \<and> k' < e \<longrightarrow> indicesArr c ! k \<noteq> indicesArr c ! k'"
  shows "\<exists>result.
           getGeneExpression (Some zroot) sm cached geneName =
             (Inr (Some result), Some c,
              reqs @ (if s < e then [GetSlice ''X/indices'' (int s) (int e),
                                     GetSlice ''X/data'' (int s) (int e)] else []))
         \<and> length result = nCells
         \<and> (\<forall>k. s \<le> k \<and> k < e \<longrightarrow> result ! nat (indicesArr c ! k) = Math_fround (dataArr c ! k))
         \<and> (\<forall>cell < nCells. (\<forall>k. s \<le> k \<and> k < e \<longrightarrow> indicesArr c ! k \<noteq> int cell)
                \<longrightarrow> result ! cell = Fin 0)
         \<and> (s = e \<longrightarrow> result = replicate nCells (Fin 0))"
proof (cases "s < e")
  case False
  with ptr have se: "s = e" by simp
  have "getGeneExpression (Some zroot) sm cached geneName =
          (Inr (Some (replicate nCells (Fin 0))), Some c, reqs)"
    using names cache ptr se
    by (simp add: getGeneExpression_def Let_def int_nth_def g [symmetric] n [symmetric])
  then show ?thesis
    using se by auto
next
  case True
  define geneIndices where "geneIndices = take (e - s) (drop s (indicesArr c))"
  define geneData where "geneData = take (e - s) (drop s (dataArr c))"
  define result where "result = scatter geneIndices geneData (replicate nCells (Fin 0))"
  have sl: "zarr_slice (int s) (int e) (indicesArr c) = geneIndices"
           "zarr_slice (int s) (int e) (dataArr c) = geneData"
    using ptr(4) len by (simp_all add: zarr_slice_nat geneIndices_def geneData_def)
  have run: "getGeneExpression (Some zroot) sm cached geneName =
          (Inr (Some result), Some c,
           reqs @ [GetSlice ''X/indices'' (int s) (int e), GetSlice ''X/data'' (int s) (int e)])"
    using names cache ptr True sl
    by (simp add: getGeneExpression_def Let_def int_nth_def g [symmetric] n [symmetric] result_def)
  have li: "length geneIndices = e - s" and ld: "length geneData = e - s"
    using len ptr(4) by (simp_all add: geneIndices_def geneData_def)
  have ni: "geneIndices ! j = indicesArr c ! (s + j)" if "j < e - s" for j
    using that len by (simp add: geneIndices_def)
  have nd: "geneData ! j = dataArr c ! (s + j)" if "j < e - s" for j
    using that len by (simp add: geneData_def)
  have dst: "distinct geneIndices"
  proof (simp only: distinct_conv_nth, intro allI impI)
    fix i j assume a: "i < length geneIndices" "j < length geneIndices" "i \<noteq> j"
    have ij: "s + i < e" "s + j < e" using a li by linarith+
    have "indicesArr c ! (s + i) \<noteq> indicesArr c ! (s + j)"
    proof (cases "i < j")
      case True
      then show ?thesis
        using dist [rule_format, of "s + i" "s + j"] ij by auto
    next
      case False
      then have "j < i" using a(3) by simp
      then show ?thesis
        using dist [rule_format, of "s + j" "s + i"] ij by auto
    qed
    then show "geneIndices ! i \<noteq> geneIndices ! j"
      using a li ni by simp
  qed
  have rng: "\<forall>x \<in> set geneIndices. 0 \<le> x \<and> nat x < length (replicate nCells (Fin 0 :: jsnum))"
  proof
    fix x assume "x \<in> set geneIndices"
    then obtain j where j: "j < e - s" "x = geneIndices ! j"
      using li by (metis in_set_conv_nth)
    then have xe: "x = indicesArr c ! (s + j)" using ni by simp
    have sj: "s \<le> s + j \<and> s + j < e" using j(1) by linarith
    have "0 \<le> indicesArr c ! (s + j) \<and> indicesArr c ! (s + j) < int nCells"
      using cells sj by blast
    then show "0 \<le> x \<and> nat x < length (replicate nCells (Fin 0 :: jsnum))"
      using xe by auto
  qed
  have hit: "result ! nat (indicesArr c ! k) = Math_fround (dataArr c ! k)" if "s \<le> k" "k < e" for k
  proof -
    have j: "k - s < length geneIndices" using that li by simp
    have "scatter geneIndices geneData (replicate nCells (Fin 0)) ! nat (geneIndices ! (k - s))
            = Math_fround (geneData ! (k - s))"
      by (rule scatter_hit [OF dst _ rng j]) (simp add: li ld)
    then show ?thesis
      using that ni [of "k - s"] nd [of "k - s"] by (simp add: result_def)
  qed
  have miss: "result ! cell = Fin 0"
    if "cell < nCells" "\<forall>k. s \<le> k \<and> k < e \<longrightarrow> indicesArr c ! k \<noteq> int cell" for cell
  proof -
    have "int cell \<notin> set geneIndices"
    proof
      assume "int cell \<in> set geneIndices"
      then obtain j where j: "j < e - s" "int cell = geneIndices ! j"
        using li by (metis in_set_conv_nth)
      then have ie: "indicesArr c ! (s + j) = int cell" using ni by simp
      have sj: "s \<le> s + j \<and> s + j < e" using j(1) by linarith
      then have "indicesArr c ! (s + j) \<noteq> int cell" using that(2) by blast
      then show False using ie by simp
    qed
    then have "result ! cell = replicate nCells (Fin 0) ! cell"
      unfolding result_def by (rule scatter_other)
    then show ?thesis using that(1) by simp
  qed
  have "length result = nCells"
    by (simp add: result_def length_scatter)
  then show ?thesis
    using run True hit miss by auto
qed

lemma ex_cache: "init_cache example_matrix_store None =
     (Inr \<lparr>indptr = [0, 2, 2], indicesArr = [3, 7], dataArr = [Fin (3 / 2), Fin 2]\<rparr>,
      [Open ''X/indptr'', Open ''X/indices'', Open ''X/data'', Get ''X/indptr''])"
  by (simp add: init_cache_def example_matrix_store_def empty_store_def)

lemma list_of_length_10:
  assumes "length xs = 10"
  shows "xs = [xs ! 0, xs ! 1, xs ! 2, xs ! 3, xs ! 4, xs ! 5, xs ! 6, xs ! 7, xs ! 8, xs ! 9]"
proof (rule nth_equalityI)
  show "length xs =
          length [xs ! 0, xs ! 1, xs ! 2, xs ! 3, xs ! 4, xs ! 5, xs ! 6, xs ! 7, xs ! 8, xs ! 9]"
    using assms by simp
next
  fix i assume "i < length xs"
  then have "i < 10" using assms by simp
  then have "i = 0 \<or> i = 1 \<or> i = 2 \<or> i = 3 \<or> i = 4 \<or> i = 5 \<or> i = 6 \<or> i = 7 \<or> i = 8 \<or> i = 9"
    by presburger
  then show "xs ! i
      = [xs ! 0, xs ! 1, xs ! 2, xs ! 3, xs ! 4, xs ! 5, xs ! 6, xs ! 7, xs ! 8, xs ! 9] ! i"
    by (elim disjE) simp_all
qed

theorem getGeneExpression_dense_witness:
  "fst (getGeneExpression (Some example_matrix_store)
          \<lparr>geneNames = Some [''GeneA'', ''GeneB''], shape = [10, 2]\<rparr> None ''GeneA'')
     = Inr (Some [Fin 0, Fin 0, Fin 0, Fin (3 / 2), Fin 0, Fin 0, Fin 0, Fin 2, Fin 0, Fin 0])
   \<and> snd (snd (getGeneExpression (Some example_matrix_store)
          \<lparr>geneNames = Some [''GeneA'', ''GeneB''], shape = [10, 2]\<rparr> None ''GeneA''))
     = [Open ''X/indptr'', Open ''X/indices'', Open ''X/data'', Get ''X/indptr'',
        GetSlice ''X/indices'' 0 2, GetSlice ''X/data'' 0 2]
   \<and> getGeneExpression (Some example_matrix_store)
          \<lparr>geneNames = Some [''GeneA'', ''GeneB''], shape = [10, 2]\<rparr> None ''GeneB''
     = (Inr (Some (replicate 10 (Fin 0))),
        Some \<lparr>indptr = [0, 2, 2], indicesArr = [3, 7], dataArr = [Fin (3 / 2), Fin 2]\<rparr>,
        [Open ''X/indptr'', Open ''X/indices'', Open ''X/data'', Get ''X/indptr''])"
proof -
  let ?sm = "\<lparr>geneNames = Some [''GeneA'', ''GeneB''], shape = [10, 2]\<rparr>"
  let ?c = "\<lparr>indptr = [0, 2, 2], indicesArr = [3, 7], dataArr = [Fin (3 / 2), Fin 2]\<rparr>"
  let ?reqs = "[Open ''X/indptr'', Open ''X/indices'', Open ''X/data'', Get ''X/indptr'']"
  have two: "k = 0 \<or> k = 1" if "k < 2" for k :: nat
    using that by linarith
  have "\<exists>result.
           getGeneExpression (Some example_matrix_store) ?sm None ''GeneA'' =
             (Inr (Some result), Some ?c,
              ?reqs @ (if (0::nat) < 2 then [GetSlice ''X/indices'' (int 0) (int 2),
                                     GetSlice ''X/data'' (int 0) (int 2)] else []))
         \<and> length result = 10
         \<and> (\<forall>k. 0 \<le> k \<and> k < 2 \<longrightarrow> result ! nat (indicesArr ?c ! k) = Math_fround (dataArr ?c ! k))
         \<and> (\<forall>cell < 10. (\<forall>k. 0 \<le> k \<and> k < 2 \<longrightarrow> indicesArr ?c ! k \<noteq> int cell)
                \<longrightarrow> result ! cell = Fin 0)
         \<and> ((0::nat) = 2 \<longrightarrow> result = replicate 10 (Fin 0))"
  proof (rule getGeneExpression_dense [where names = "[''GeneA'', ''GeneB'']" and g = 0])
    show "\<forall>k. 0 \<le> k \<and> k < 2 \<longrightarrow> 0 \<le> indicesArr ?c ! k \<and> indicesArr ?c ! k < int 10"
    proof (intro allI impI)
      fix k :: nat assume "0 \<le> k \<and> k < 2"
      then have "k = 0 \<or> k = 1" using two by simp
      then show "0 \<le> indicesArr ?c ! k \<and> indicesArr ?c ! k < int 10" by (elim disjE) simp_all
    qed
    show "\<forall>k k'. 0 \<le> k \<and> k < k' \<and> k' < 2 \<longrightarrow> indicesArr ?c ! k \<noteq> indicesArr ?c ! k'"
    proof (intro allI impI)
      fix k k' :: nat assume "0 \<le> k \<and> k < k' \<and> k' < 2"
      then have "k = 0" "k' = 1" by linarith+
      then show "indicesArr ?c ! k \<noteq> indicesArr ?c ! k'" by simp
    qed
  qed (simp_all add: ex_cache)
  then obtain result where run: "getGeneExpression (Some example_matrix_store) ?sm None ''GeneA'' =
             (Inr (Some result), Some ?c,
              ?reqs @ [GetSlice ''X/indices'' 0 2, GetSlice ''X/data'' 0 2])"
    and len: "length result = 10"
    and hit: "\<forall>k. 0 \<le> k \<and> k < 2 \<longrightarrow> result ! nat (indicesArr ?c ! k) = Math_fround (dataArr ?c ! k)"
    and miss: "\<forall>cell < 10. (\<forall>k. 0 \<le> k \<and> k < 2 \<longrightarrow> indicesArr ?c ! k \<noteq> int cell)
                \<longrightarrow> result ! cell = Fin 0"
    by auto
  have r3: "result ! 3 = Fin (3 / 2)"
    using hit [rule_format, of 0] by (simp add: float32_three_halves)
  have r7: "result ! 7 = Fin 2"
    using hit [rule_format, of 1] by (simp add: float32_two)
  have zero: "result ! cell = Fin 0" if "cell < 10" "cell \<noteq> 3" "cell \<noteq> 7" for cell
  proof -
    have "\<forall>k. 0 \<le> k \<and> k < 2 \<longrightarrow> indicesArr ?c ! k \<noteq> int cell"
    proof (intro allI impI)
      fix k :: nat assume "0 \<le> k \<and> k < 2"
      then have "k = 0 \<or> k = 1" using two by simp
      then show "indicesArr ?c ! k \<noteq> int cell" using that by (elim disjE) simp_all
    qed
    then show ?thesis using miss that(1) by blast
  qed
  have "result = [result ! 0, result ! 1, result ! 2, result ! 3, result ! 4, result ! 5,
                  result ! 6, result ! 7, result ! 8, result ! 9]"
    using len by (rule list_of_length_10)
  then have a: "result = [Fin 0, Fin 0, Fin 0, Fin (3 / 2), Fin 0, Fin 0, Fin 0, Fin 2, Fin 0, Fin 0]"
    by (simp add: r3 r7 zero)
  have b: "\<exists>result.
           getGeneExpression (Some example_matrix_store) ?sm None ''GeneB'' =
             (Inr (Some result), Some ?c,
              ?reqs @ (if (2::nat) < 2 then [GetSlice ''X/indices'' (int 2) (int 2),
                                     GetSlice ''X/data'' (int 2) (int 2)] else []))
         \<and> length result = 10
         \<and> (\<forall>k. 2 \<le> k \<and> k < 2 \<longrightarrow> result ! nat (indicesArr ?c ! k) = Math_fround (dataArr ?c ! k))
         \<and> (\<forall>cell < 10. (\<forall>k. 2 \<le> k \<and> k < 2 \<longrightarrow> indicesArr ?c ! k \<noteq> int cell)
                \<longrightarrow> result ! cell = Fin 0)
         \<and> ((2::nat) = 2 \<longrightarrow> result = replicate 10 (Fin 0))"
    by (rule getGeneExpression_dense [where names = "[''GeneA'', ''GeneB'']" and g = 1])
       (simp_all add: ex_cache)
  from run a b show ?thesis by auto
qed

text \<open>
  C1 as it was stated fails for a value that single precision does not represent: the data
  array holds \<open>16777217\<close> for the only cell of the only gene, the column is well-formed, and the
  vector returned holds \<open>16777216\<close>.
\<close>

theorem getGeneExpression_float32_counterexample:
  "num_array wide_matrix_store ''X/data'' = Some [Fin 16777217]
   \<and> fst (getGeneExpression (Some wide_matrix_store)
            \<lparr>geneNames = Some [''GeneA''], shape = [1, 1]\<rparr> None ''GeneA'')
       = Inr (Some [Fin 16777216])
   \<and> Fin 16777216 \<noteq> Fin 16777217"
  by (simp add: getGeneExpression_def init_cache_def wide_matrix_store_def empty_store_def
      int_nth_def zarr_slice_def typed_set_def Let_def float32_wide)

section \<open>Properties of the rounding\<close>

lemma bit_length_le: "n < 2 ^ k \<Longrightarrow> bit_length n \<le> k"
proof (induction k arbitrary: n)
  case 0
  then show ?case by (simp add: bit_length_0)
next
  case (Suc k)
  show ?case
  proof (cases "n = 0")
    case True
    then show ?thesis by (simp add: bit_length_0)
  next
    case False
    from Suc.prems have "n div 2 < 2 ^ k" by simp
    then have "bit_length (n div 2) \<le> k" by (rule Suc.IH)
    then show ?thesis using False by (simp add: bit_length_pos)
  qed
qed

lemma bit_length_gt: "n < 2 ^ bit_length n"
proof (induction n rule: bit_length.induct)
  case (1 n)
  show ?case
  proof (cases "n = 0")
    case True
    then show ?thesis by (simp add: bit_length_0)
  next
    case False
    from "1.IH" [OF False] have "n div 2 < 2 ^ bit_length (n div 2)" .
    then have "n < 2 * 2 ^ bit_length (n div 2)" by linarith
    then show ?thesis using False by (simp add: bit_length_pos)
  qed
qed

lemma bit_length_ge: "0 < n \<Longrightarrow> 2 ^ (bit_length n - 1) \<le> n"
proof (induction n rule: bit_length.induct)
  case (1 n)
  then have n: "n \<noteq> 0" by simp
  show ?case
  proof (cases "n div 2 = 0")
    case True
    then have "bit_length n = 1" using n by (simp add: bit_length_pos bit_length_0)
    then show ?thesis using "1.prems" by simp
  next
    case False
    then have "2 ^ (bit_length (n div 2) - 1) \<le> n div 2" using "1.IH" [OF n] by simp
    moreover have "0 < bit_length (n div 2)" using False by (simp add: bit_length_pos)
    ultimately have "2 ^ bit_length (n div 2) \<le> 2 * (n div 2)"
      by (cases "bit_length (n div 2)") simp_all
    then have "2 ^ bit_length (n div 2) \<le> n" by linarith
    then show ?thesis using n by (simp add: bit_length_pos)
  qed
qed

lemma round_half_even_cases:
  "round_half_even z = \<lfloor>z\<rfloor> \<and> z - of_int \<lfloor>z\<rfloor> \<le> 1 / 2
   \<or> round_half_even z = \<lfloor>z\<rfloor> + 1 \<and> 1 / 2 \<le> z - of_int \<lfloor>z\<rfloor>"
  by (auto simp add: round_half_even_def Let_def)

lemma round_half_even_le:
  assumes "z \<le> of_int M"
  shows "round_half_even z \<le> M"
proof -
  have f: "\<lfloor>z\<rfloor> \<le> M" using assms by (simp add: floor_le_iff)
  show ?thesis
  proof (cases "\<lfloor>z\<rfloor> = M")
    case True
    then have "z - of_int \<lfloor>z\<rfloor> \<le> 0" using assms by simp
    then show ?thesis using round_half_even_cases [of z] True by auto
  next
    case False
    then have "\<lfloor>z\<rfloor> + 1 \<le> M" using f by simp
    then show ?thesis using round_half_even_cases [of z] by auto
  qed
qed

lemma round_half_even_lt:
  assumes "z < of_int M - 1 / 2"
  shows "round_half_even z \<le> M - 1"
proof -
  have "z < of_int M" using assms by simp
  then have f: "\<lfloor>z\<rfloor> \<le> M - 1" by (simp add: floor_less_iff)
  show ?thesis
  proof (cases "\<lfloor>z\<rfloor> = M - 1")
    case True
    then have "z - of_int \<lfloor>z\<rfloor> < 1 / 2" using assms by simp
    then show ?thesis using round_half_even_cases [of z] True by auto
  next
    case False
    then have "\<lfloor>z\<rfloor> + 1 \<le> M - 1" using f by simp
    then show ?thesis using round_half_even_cases [of z] by auto
  qed
qed

lemma round_half_even_nonneg: "0 \<le> z \<Longrightarrow> 0 \<le> round_half_even z"
  using round_half_even_cases [of z] by auto

lemma pow2_powr: "pow2 e = 2 powr (real_of_int e)"
proof (cases "0 \<le> e")
  case True
  then obtain n where e: "e = int n" by (metis nonneg_int_cases)
  have "2 powr (real n) = (2::real) ^ n" by (rule powr_realpow) simp
  then show ?thesis by (simp add: e pow2_def)
next
  case False
  then obtain n where e: "e = - int n" and n: "0 < n"
    by (metis int_cases of_nat_0_le_iff not_less zero_less_iff_neq_zero of_nat_0
        neg_0_equal_iff_equal)
  have a: "2 powr (real n) = (2::real) ^ n" by (rule powr_realpow) simp
  have "2 powr (- real n) = inverse ((2::real) powr (real n))" by (rule powr_minus)
  then have "2 powr (- real n) = 1 / (2::real) ^ n" by (simp add: a inverse_eq_divide)
  then show ?thesis using n by (simp add: e pow2_def)
qed

lemma pow2_add: "pow2 (a + b) = pow2 a * pow2 b"
  by (simp add: pow2_powr powr_add)

lemma pow2_nat: "pow2 (int n) = 2 ^ n"
  by (simp add: pow2_def)

lemma pow2_neg_nat: "pow2 (- int n) = 1 / 2 ^ n"
  by (cases "n = 0") (simp_all add: pow2_def)

lemma ilog2_upper:
  assumes "0 \<le> a" and "a < 2 ^ p" and "0 < p"
  shows "ilog2 a \<le> int p - 1"
proof (cases "1 \<le> a")
  case True
  have "a < of_int (2 ^ p)" using assms(2) by simp
  then have "\<lfloor>a\<rfloor> < 2 ^ p" by (simp only: floor_less_iff)
  then have "nat \<lfloor>a\<rfloor> < 2 ^ p" using True by (simp add: nat_less_iff)
  then have "bit_length (nat \<lfloor>a\<rfloor>) \<le> p" by (rule bit_length_le)
  then show ?thesis using True by (simp add: ilog2_def)
next
  case False
  then show ?thesis using assms(3) by (simp add: ilog2_def)
qed

lemma ilog2_lower:
  assumes "0 < a"
  shows "pow2 (ilog2 a) \<le> a"
proof (cases "1 \<le> a")
  case True
  define n where "n = nat \<lfloor>a\<rfloor>"
  have n: "0 < n" using True by (simp add: n_def)
  have bl: "0 < bit_length n" using n by (simp add: bit_length_pos)
  have "ilog2 a = int (bit_length n) - 1" using True by (simp add: ilog2_def n_def)
  also have "\<dots> = int (bit_length n - 1)" using bl by simp
  finally have "pow2 (ilog2 a) = 2 ^ (bit_length n - 1)" by (simp only: pow2_nat)
  also have "\<dots> \<le> real n"
  proof -
    have "real ((2::nat) ^ (bit_length n - 1)) \<le> real n"
      using bit_length_ge [OF n] by (simp only: of_nat_le_iff)
    then show ?thesis by simp
  qed
  also have "\<dots> \<le> a" using True by (simp add: n_def)
  finally show ?thesis .
next
  case False
  define k where "k = bit_length (nat (\<lceil>1 / a\<rceil> - 1))"
  have il: "ilog2 a = - int k" using False by (simp add: ilog2_def k_def)
  have "nat (\<lceil>1 / a\<rceil> - 1) < 2 ^ k" unfolding k_def by (rule bit_length_gt)
  then have "\<lceil>1 / a\<rceil> - 1 < 2 ^ k" by (simp add: nat_less_iff)
  then have "\<lceil>1 / a\<rceil> \<le> 2 ^ k" by simp
  then have "1 / a \<le> of_int (2 ^ k)" by (simp only: ceiling_le_iff)
  then have c: "1 / a \<le> 2 ^ k" by simp
  have "1 = (1 / a) * a" using assms by simp
  also have "\<dots> \<le> 2 ^ k * a" using c assms by (intro mult_right_mono) simp_all
  finally have "1 \<le> 2 ^ k * a" .
  then have "1 / 2 ^ k \<le> a" by (simp add: pos_divide_le_eq mult.commute)
  then show ?thesis by (simp only: il pow2_neg_nat)
qed

lemma float_round_nonneg_form:
  assumes "0 \<le> x"
  shows "float_round p q emax x =
           (let e = max (ilog2 x - (int p - 1)) (- int q);
                y = of_int (round_half_even (x / pow2 e)) * pow2 e
            in if 2 ^ emax \<le> y then PInf else Fin y)"
  using assms by (simp add: float_round_def Let_def)

lemma real_less_pow2: "n < 2 ^ p \<Longrightarrow> real n < 2 ^ p"
proof -
  assume "n < 2 ^ p"
  then have "real n < real (2 ^ p)" by (simp only: of_nat_less_iff)
  also have "real (2 ^ p) = 2 ^ p" by simp
  finally show ?thesis .
qed

lemma float_round_zero: "float_round p q emax 0 = Fin 0"
proof -
  have "\<not> (2::real) ^ emax \<le> 0" by (simp add: not_le)
  then show ?thesis by (simp add: float_round_def Let_def round_half_even_def)
qed

text \<open>Rounding does not cross an integer that the format represents: a value that is not
  negative and at most \<open>n < 2^p\<close> rounds to a finite value that is at most \<open>n\<close>.\<close>

lemma float_round_le_nat:
  assumes x: "0 \<le> x" "x \<le> real n" and n: "n < 2 ^ p" and p: "0 < p" "p \<le> emax"
  shows "\<exists>y. float_round p q emax x = Fin y \<and> 0 \<le> y \<and> y \<le> real n"
proof -
  define e where "e = max (ilog2 x - (int p - 1)) (- int q)"
  define y where "y = of_int (round_half_even (x / pow2 e)) * pow2 e"
  have "x < 2 ^ p" using real_less_pow2 [OF n] x(2) by linarith
  then have "ilog2 x \<le> int p - 1" using x(1) p(1) by (intro ilog2_upper)
  then have e0: "e \<le> 0" by (simp add: e_def)
  define k where "k = nat (- e)"
  have ek: "e = - int k" using e0 by (simp add: k_def)
  have pw: "pow2 e = 1 / 2 ^ k" by (simp only: ek pow2_neg_nat)
  have z: "x / pow2 e = x * 2 ^ k" by (simp add: pw)
  have "x * 2 ^ k \<le> real n * 2 ^ k" using x(2) by (intro mult_right_mono) simp_all
  also have "\<dots> = of_int (int n * 2 ^ k)" by simp
  finally have "round_half_even (x * 2 ^ k) \<le> int n * 2 ^ k" by (rule round_half_even_le)
  then have "real_of_int (round_half_even (x * 2 ^ k)) \<le> real_of_int (int n * 2 ^ k)"
    by (simp only: of_int_le_iff)
  then have "real_of_int (round_half_even (x * 2 ^ k)) \<le> real n * 2 ^ k" by simp
  then have "real_of_int (round_half_even (x * 2 ^ k)) / 2 ^ k \<le> real n"
    by (simp add: pos_divide_le_eq)
  then have yn: "y \<le> real n" by (simp add: y_def z pw)
  have "0 \<le> x * 2 ^ k" using x(1) by simp
  then have "0 \<le> round_half_even (x * 2 ^ k)" by (rule round_half_even_nonneg)
  then have y0: "0 \<le> y" by (simp add: y_def z pw)
  have "(2::nat) ^ p \<le> 2 ^ emax" using p(2) by simp
  then have "n < 2 ^ emax" using n by linarith
  then have "real n < 2 ^ emax" by (rule real_less_pow2)
  then have no: "\<not> 2 ^ emax \<le> y" using yn by linarith
  have "float_round p q emax x = Fin y"
    using no unfolding float_round_nonneg_form [OF x(1)] Let_def e_def [symmetric] y_def [symmetric]
    by simp
  then show ?thesis using y0 yn by blast
qed

text \<open>A value that is at most \<open>m (1 - 2^-p)\<close>, for a positive integer \<open>m < 2^p\<close>, rounds to a
  value below \<open>m\<close>: the distance to \<open>m\<close> is more than half the spacing of the format below
  \<open>m\<close>.\<close>

lemma float_round_lt_nat:
  assumes x: "0 \<le> x" "x \<le> real m * (1 - 1 / 2 ^ p)" and m: "0 < m" "m < 2 ^ p"
    and p: "0 < p" "p \<le> q" "p \<le> emax"
  shows "\<exists>y. float_round p q emax x = Fin y \<and> 0 \<le> y \<and> y < real m"
proof (cases "x = 0")
  case True
  then show ?thesis using m(1) by (simp add: float_round_zero)
next
  case False
  then have xp: "0 < x" using x(1) by simp
  define e where "e = max (ilog2 x - (int p - 1)) (- int q)"
  define y where "y = of_int (round_half_even (x / pow2 e)) * pow2 e"
  have mp: "0 < real m" using m(1) by simp
  have "real m * (1 - 1 / 2 ^ p) < real m * 1"
    using mp by (intro mult_strict_left_mono) simp_all
  then have xm: "x < real m" using x(2) by simp
  have m2: "real m < 2 ^ p" using m(2) by (rule real_less_pow2)
  then have "x < 2 ^ p" using xm by linarith
  then have iu: "ilog2 x \<le> int p - 1" using x(1) p(1) by (intro ilog2_upper)
  then have e0: "e \<le> 0" by (simp add: e_def)
  define k where "k = nat (- e)"
  have ek: "e = - int k" using e0 by (simp add: k_def)
  have pw: "pow2 e = 1 / 2 ^ k" by (simp only: ek pow2_neg_nat)
  have z: "x / pow2 e = x * 2 ^ k" by (simp add: pw)
  have half: "(2::real) ^ p < 2 * (real m * 2 ^ k)"
  proof (cases "ilog2 x - (int p - 1) \<le> - int q")
    case True
    then have "e = - int q" by (simp add: e_def)
    then have "k = q" by (simp add: k_def)
    have "(2::real) ^ p \<le> 2 ^ k" using p(2) \<open>k = q\<close> by simp
    also have "\<dots> < 2 * 2 ^ k" by simp
    also have "\<dots> = 2 * (1 * 2 ^ k)" by simp
    also have "\<dots> \<le> 2 * (real m * 2 ^ k)"
      using m(1) by (intro mult_left_mono mult_right_mono) simp_all
    finally show ?thesis .
  next
    case False
    then have "e = ilog2 x - (int p - 1)" by (simp add: e_def)
    then have "int k + ilog2 x + 1 = int p" using ek by simp
    then have "pow2 (int k + ilog2 x + 1) = pow2 (int p)" by simp
    then have "pow2 (int k) * pow2 (ilog2 x) * pow2 1 = pow2 (int p)" by (simp only: pow2_add)
    then have eq: "2 ^ k * pow2 (ilog2 x) * 2 = 2 ^ p" by (simp add: pow2_nat pow2_def)
    have "pow2 (ilog2 x) \<le> x" using xp by (rule ilog2_lower)
    then have "pow2 (ilog2 x) < real m" using xm by linarith
    then have "2 ^ k * pow2 (ilog2 x) < 2 ^ k * real m" by (intro mult_strict_left_mono) simp_all
    then have "2 ^ k * pow2 (ilog2 x) * 2 < 2 ^ k * real m * 2" by simp
    then have "(2::real) ^ p < 2 ^ k * real m * 2" by (simp only: eq)
    then show ?thesis by (simp add: mult.commute mult.left_commute)
  qed
  define M where "M = int m * 2 ^ k"
  have Mr: "real_of_int M = real m * 2 ^ k" by (simp add: M_def)
  have "x * 2 ^ k \<le> real m * (1 - 1 / 2 ^ p) * 2 ^ k"
    using x(2) by (intro mult_right_mono) simp_all
  also have "\<dots> = real m * 2 ^ k - (real m * 2 ^ k) / 2 ^ p" by (simp add: algebra_simps)
  also have "\<dots> < real m * 2 ^ k - 1 / 2"
  proof -
    have "1 / 2 < (real m * 2 ^ k) / 2 ^ p" using half by (simp add: pos_less_divide_eq)
    then show ?thesis by linarith
  qed
  finally have "x * 2 ^ k < real_of_int M - 1 / 2" by (simp only: Mr)
  then have "round_half_even (x * 2 ^ k) \<le> M - 1" by (rule round_half_even_lt)
  then have "real_of_int (round_half_even (x * 2 ^ k)) \<le> real_of_int (M - 1)"
    by (simp only: of_int_le_iff)
  then have "real_of_int (round_half_even (x * 2 ^ k)) < real m * 2 ^ k" using Mr by simp
  then have "real_of_int (round_half_even (x * 2 ^ k)) / 2 ^ k < real m"
    by (simp add: pos_divide_less_eq)
  then have ym: "y < real m" by (simp add: y_def z pw)
  have "0 \<le> x * 2 ^ k" using x(1) by simp
  then have "0 \<le> round_half_even (x * 2 ^ k)" by (rule round_half_even_nonneg)
  then have y0: "0 \<le> y" by (simp add: y_def z pw)
  have "(2::nat) ^ p \<le> 2 ^ emax" using p(3) by simp
  then have "m < 2 ^ emax" using m(2) by linarith
  then have "real m < 2 ^ emax" by (rule real_less_pow2)
  then have no: "\<not> 2 ^ emax \<le> y" using ym by linarith
  have "float_round p q emax x = Fin y"
    using no unfolding float_round_nonneg_form [OF x(1)] Let_def e_def [symmetric] y_def [symmetric]
    by simp
  then show ?thesis using y0 ym by blast
qed

section \<open>Properties of the sampling\<close>

lemma float64_cases: "(\<exists>y. float64 x = Fin y) \<or> float64 x = PInf \<or> float64 x = NInf"
  by (simp add: float64_def float_round_def Let_def)

text \<open>The sample rate is a number between 0.01 and 1 whenever the value of the slider parses
  to a number.\<close>

lemma sampleRate_of_slider_range:
  "\<exists>r. sampleRate_of_slider (Fin v) = Fin r \<and> 0 < r \<and> r \<le> 1"
proof -
  define c :: real where "c = 5764607523034235 / 2 ^ 59"
  have c: "0 < c" "c \<le> 1" by (simp_all add: c_def)
  have h: "float64 (1 / 100) = Fin c" unfolding c_def by (rule float64_hundredth)
  have sr: "sampleRate_of_slider (Fin v) = Math_max (Fin c) (Math_min (Fin 1) (float64 (v / 100)))"
    by (simp only: sampleRate_of_slider_def h double_div_by.simps)
  consider y where "float64 (v / 100) = Fin y" | "float64 (v / 100) = PInf"
    | "float64 (v / 100) = NInf"
    using float64_cases [of "v / 100"] by blast
  then show ?thesis
  proof cases
    case 1
    have "sampleRate_of_slider (Fin v) = Fin (max c (min 1 y))"
      by (simp add: sr 1 Math_min_def Math_max_def max_def min_def)
    moreover have "0 < max c (min 1 y)" "max c (min 1 y) \<le> 1" using c by simp_all
    ultimately show ?thesis by blast
  next
    case 2
    have "sampleRate_of_slider (Fin v) = Fin 1"
      using c by (simp add: sr 2 Math_min_def Math_max_def)
    then show ?thesis by simp
  next
    case 3
    have "sampleRate_of_slider (Fin v) = Fin c"
      by (simp add: sr 3 Math_min_def Math_max_def)
    then show ?thesis using c by simp
  qed
qed

text \<open>With 50 visible indices and the slider at 58 the target count is 28: the sample rate is
  the double nearest to \<open>0.58\<close>, and 50 times that double rounds to a double below 29.\<close>

lemma sampleRate_of_slider_58:
  "sampleRate_of_slider (Fin 58) = Fin (5224175567749775 / 2 ^ 53)"
  by (simp add: sampleRate_of_slider_def float64_def fl_eval Math_min_def Math_max_def)

lemma double_mul_50_58:
  "double_mul (Fin 50) (Fin (5224175567749775 / 2 ^ 53)) = Fin (8162774324609023 / 2 ^ 48)"
  by (simp add: float64_def fl_eval)

lemma target_of_slider_58:
  "Math_min (Math_floor (double_mul (Fin 50) (sampleRate_of_slider (Fin 58))))
            (Fin (of_int MAX_POINTS)) = Fin 28"
proof -
  have "Math_floor (Fin (8162774324609023 / 2 ^ 48)) = Fin 28" by simp
  then show ?thesis
    by (simp only: sampleRate_of_slider_58 double_mul_50_58) (simp add: MAX_POINTS_def Math_min_def)
qed

lemma length_shuffle: "length (shuffle random t i xs) = length xs"
proof (induction random t i xs rule: shuffle.induct)
  case (1 random t i xs)
  show ?case
  proof (cases "num_lt (Fin (real i)) t \<and> i < length xs")
    case True
    then show ?thesis
      using "1.IH" [OF True refl] by (subst shuffle.simps) (simp add: Let_def)
  next
    case False
    then show ?thesis by (subst shuffle.simps) auto
  qed
qed

text \<open>The index \<open>j\<close> drawn in iteration \<open>i\<close> lies in the array.\<close>

lemma random_index:
  assumes r: "0 \<le> r" "r \<le> 1 - 1 / 2 ^ 53" and i: "i < n" and n: "n < 2 ^ 53"
  shows "i + floor_offset (double_mul (Fin r) (Fin (real (n - i)))) < n"
proof -
  define m where "m = n - i"
  have m: "0 < m" "m < 2 ^ 53" using i n by (simp_all add: m_def)
  have x0: "0 \<le> r * real m" using r(1) by simp
  have "r * real m \<le> (1 - 1 / 2 ^ 53) * real m"
    using r(2) by (intro mult_right_mono) simp_all
  then have x1: "r * real m \<le> real m * (1 - 1 / 2 ^ 53)" by (simp only: mult.commute)
  obtain y where y: "float_round 53 1074 1024 (r * real m) = Fin y" "0 \<le> y" "y < real m"
    using float_round_lt_nat [OF x0 x1 m, where q = 1074 and emax = 1024] by auto
  have "y < of_int (int m)" using y(3) by simp
  then have "\<lfloor>y\<rfloor> < int m" by (simp only: floor_less_iff)
  then have "nat \<lfloor>y\<rfloor> < m" using m(1) by linarith
  moreover have "double_mul (Fin r) (Fin (real (n - i))) = Fin y"
    using y(1) by (simp add: float64_def m_def)
  ultimately show ?thesis using i by (simp add: m_def)
qed

lemma mset_shuffle:
  assumes "\<forall>k. 0 \<le> random k \<and> random k \<le> 1 - 1 / 2 ^ 53" and "length xs < 2 ^ 53"
  shows "mset (shuffle random t i xs) = mset xs"
  using assms
proof (induction random t i xs rule: shuffle.induct)
  case (1 random t i xs)
  show ?case
  proof (cases "num_lt (Fin (real i)) t \<and> i < length xs")
    case True
    define j where "j = i + floor_offset (double_mul (Fin (random i)) (Fin (real (length xs - i))))"
    have r: "0 \<le> random i" "random i \<le> 1 - 1 / 2 ^ 53" using "1.prems"(1) by simp_all
    have i: "i < length xs" using True by simp
    have j: "j < length xs"
      unfolding j_def using r i "1.prems"(2) by (rule random_index)
    have len: "length (xs[i := xs ! j, j := xs ! i]) < 2 ^ 53" using "1.prems"(2) by simp
    have "mset (shuffle random t (Suc i) (xs[i := xs ! j, j := xs ! i]))
            = mset (xs[i := xs ! j, j := xs ! i])"
      using "1.IH" [OF True j_def "1.prems"(1) len] .
    also have "\<dots> = mset xs"
      using i j by (simp add: mset_swap)
    finally have "mset (shuffle random t (Suc i) (xs[i := xs ! j, j := xs ! i])) = mset xs" .
    moreover have "shuffle random t i xs = shuffle random t (Suc i) (xs[i := xs ! j, j := xs ! i])"
      using True by (subst shuffle.simps) (simp add: Let_def j_def)
    ultimately show ?thesis by simp
  next
    case False
    then show ?thesis by (subst shuffle.simps) auto
  qed
qed

text \<open>
  C6. For a sample rate between 0 and 1 (the source clamps it to \<open>[0.01, 1]\<close>), a cap that is
  not negative, a list of fewer than \<open>2^53\<close> indices without duplicates (the visible indices; an
  array has fewer than \<open>2^32\<close> elements) and random draws that are at least 0 and at most
  \<open>1 - 2^-53\<close>, the greatest double below 1: the product \<open>n * rate\<close> of the number \<open>n\<close> of
  indices and the rate, as the code computes it, is a finite number \<open>y\<close> that is not negative;
  the sample has exactly \<open>min(floor(y), cap)\<close> elements; every element of the sample is one of
  the indices; no element occurs twice; and when that target count is at least \<open>n\<close> the sample
  is the list of indices itself, in the same order.
\<close>

theorem sample_size_and_members:
  assumes rate: "0 \<le> sampleRate" "sampleRate \<le> 1" and cap: "0 \<le> cap"
    and dist: "distinct indices" and size: "length indices < 2 ^ 53"
    and rnd: "\<forall>k. 0 \<le> random k \<and> random k \<le> 1 - 1 / 2 ^ 53"
  shows "\<exists>y. double_mul (Fin (real (length indices))) (Fin sampleRate) = Fin y \<and> 0 \<le> y
       \<and> int (length (sample indices (Fin sampleRate) cap random)) = min \<lfloor>y\<rfloor> cap
       \<and> set (sample indices (Fin sampleRate) cap random) \<subseteq> set indices
       \<and> distinct (sample indices (Fin sampleRate) cap random)
       \<and> (int (length indices) \<le> min \<lfloor>y\<rfloor> cap
            \<longrightarrow> sample indices (Fin sampleRate) cap random = indices)"
proof -
  define n where "n = length indices"
  have x0: "0 \<le> real n * sampleRate" using rate(1) by simp
  have "real n * sampleRate \<le> real n * 1"
    using rate(2) by (intro mult_left_mono) simp_all
  then have x1: "real n * sampleRate \<le> real n" by simp
  have n53: "n < 2 ^ 53" using size by (simp add: n_def)
  obtain y where y: "float_round 53 1074 1024 (real n * sampleRate) = Fin y" "0 \<le> y" "y \<le> real n"
    using float_round_le_nat [OF x0 x1 n53, of 1024 1074] by auto
  have f64: "float64 (real n * sampleRate) = Fin y"
    using y(1) by (simp add: float64_def)
  then have prod: "double_mul (Fin (real n)) (Fin sampleRate) = Fin y"
    by simp
  define t where "t = min \<lfloor>y\<rfloor> cap"
  have "y \<le> of_int (int n)" using y(3) by simp
  then have "\<lfloor>y\<rfloor> \<le> int n" by (simp only: floor_le_iff)
  then have t_le: "t \<le> int n" by (simp add: t_def)
  have "0 \<le> \<lfloor>y\<rfloor>" using y(2) by simp
  then have t_ge: "0 \<le> t" using cap by (simp add: t_def)
  have tc: "Math_min (Math_floor (double_mul (Fin (real n)) (Fin sampleRate))) (Fin (of_int cap))
              = Fin (of_int t)"
    by (simp add: f64 Math_min_def t_def min_def)
  have br: "num_le (Fin (real n)) (Fin (of_int t)) \<longleftrightarrow> int n \<le> t"
  proof -
    have "real n \<le> real_of_int t \<longleftrightarrow> real_of_int (int n) \<le> real_of_int t" by simp
    also have "\<dots> \<longleftrightarrow> int n \<le> t" by (simp only: of_int_le_iff)
    finally show ?thesis by simp
  qed
  have sm: "sample indices (Fin sampleRate) cap random =
              (if int n \<le> t then indices
               else slice_to (shuffle random (Fin (of_int t)) 0 indices) (Fin (of_int t)))"
    unfolding sample_def Let_def n_def [symmetric] tc br ..
  have goal: "int (length (sample indices (Fin sampleRate) cap random)) = t
       \<and> set (sample indices (Fin sampleRate) cap random) \<subseteq> set indices
       \<and> distinct (sample indices (Fin sampleRate) cap random)
       \<and> (int n \<le> t \<longrightarrow> sample indices (Fin sampleRate) cap random = indices)"
  proof (cases "int n \<le> t")
    case True
    then have "sample indices (Fin sampleRate) cap random = indices"
      by (simp add: sm)
    moreover have "int n = t" using True t_le by simp
    ultimately show ?thesis
      using dist by (simp add: n_def)
  next
    case False
    define ys where "ys = shuffle random (Fin (of_int t)) 0 indices"
    have ms: "mset ys = mset indices"
      unfolding ys_def using rnd size by (rule mset_shuffle)
    have ly: "length ys = n"
      by (simp add: ys_def length_shuffle n_def)
    have dy: "distinct ys"
      using ms dist by (metis mset_eq_imp_distinct_iff)
    have sy: "set ys = set indices"
      using ms by (rule mset_eq_setD)
    have res: "sample indices (Fin sampleRate) cap random = take (nat t) ys"
      using False t_ge by (simp add: sm ys_def)
    have "int (length (take (nat t) ys)) = t"
      using False t_ge ly by simp
    moreover have "set (take (nat t) ys) \<subseteq> set indices"
      using sy set_take_subset by metis
    moreover have "distinct (take (nat t) ys)"
      using dy by simp
    ultimately show ?thesis
      using False by (simp add: res)
  qed
  show ?thesis
    using prod y(2) goal unfolding n_def t_def by blast
qed

lemma float64_three_halves: "float64 (3 / 2) = Fin (3 / 2)"
  by (simp add: float64_def fl_eval)

lemma sample_example:
  "sample [10, 20, 30, 40] (Fin (1 / 2)) MAX_POINTS (\<lambda>k. 1 / 2) = [30, 10]"
proof -
  have t: "Math_min (Math_floor (double_mul (Fin (real (length [10, 20, 30, 40 :: nat]))) (Fin (1 / 2))))
             (Fin (of_int MAX_POINTS)) = Fin 2"
    by (simp add: float64_two MAX_POINTS_def Math_min_def)
  have s0: "shuffle (\<lambda>k. 1 / 2) (Fin 2) 0 [10, 20, 30, 40]
              = shuffle (\<lambda>k. 1 / 2) (Fin 2) (Suc 0) [30, 20, 10, 40]"
    by (subst shuffle.simps) (simp add: num_lt_def float64_two Let_def)
  have s1: "shuffle (\<lambda>k. 1 / 2) (Fin 2) (Suc 0) [30, 20, 10, 40]
              = shuffle (\<lambda>k. 1 / 2) (Fin 2) (Suc (Suc 0)) [30, 10, 20, 40]"
    by (subst shuffle.simps) (simp add: num_lt_def float64_three_halves Let_def)
  have s2: "shuffle (\<lambda>k. 1 / 2) (Fin 2) (Suc (Suc 0)) [30, 10, 20, 40] = [30, 10, 20, 40]"
    by (subst shuffle.simps) (simp add: num_lt_def)
  show ?thesis
    unfolding sample_def Let_def t by (simp add: s0 s1 s2)
qed

theorem sample_size_and_members_witness:
  "length (sample [10, 20, 30, 40] (Fin (1 / 2)) MAX_POINTS (\<lambda>k. 1 / 2)) = 2
   \<and> set (sample [10, 20, 30, 40] (Fin (1 / 2)) MAX_POINTS (\<lambda>k. 1 / 2)) \<subseteq> {10, 20, 30, 40}
   \<and> distinct (sample [10, 20, 30, 40] (Fin (1 / 2)) MAX_POINTS (\<lambda>k. 1 / 2))
   \<and> length (sample [1, 2, 3, 4, 5] (Fin (5404319552844595 / 2 ^ 53)) MAX_POINTS (\<lambda>k. 0)) = 3
   \<and> sample [10, 20, 30, 40] (Fin 1) MAX_POINTS (\<lambda>k. 1 / 2) = [10, 20, 30, 40]"
proof -
  have h3: "0 \<le> MAX_POINTS" by (simp add: MAX_POINTS_def)
  have r1: "\<forall>k::nat. (0::real) \<le> (\<lambda>k. 1 / 2) k \<and> (\<lambda>k. 1 / 2) k \<le> (1::real) - 1 / 2 ^ 53"
    by simp
  have r2: "\<forall>k::nat. (0::real) \<le> (\<lambda>k. 0) k \<and> (\<lambda>k. 0) k \<le> (1::real) - 1 / 2 ^ 53"
    by simp
  have a: "length (sample [10, 20, 30, 40] (Fin (1 / 2)) MAX_POINTS (\<lambda>k. 1 / 2)) = 2
     \<and> set (sample [10, 20, 30, 40] (Fin (1 / 2)) MAX_POINTS (\<lambda>k. 1 / 2)) \<subseteq> {10, 20, 30, 40}
     \<and> distinct (sample [10, 20, 30, 40] (Fin (1 / 2)) MAX_POINTS (\<lambda>k. 1 / 2))"
    using sample_size_and_members [of "1 / 2" MAX_POINTS "[10, 20, 30, 40]" "\<lambda>k. 1 / 2", OF _ _ h3 _ _ r1]
    by (simp add: float64_two MAX_POINTS_def)
  have b: "length (sample [1, 2, 3, 4, 5] (Fin (5404319552844595 / 2 ^ 53)) MAX_POINTS (\<lambda>k. 0)) = 3"
    using sample_size_and_members [of "5404319552844595 / 2 ^ 53" MAX_POINTS "[1, 2, 3, 4, 5]" "\<lambda>k. 0",
        OF _ _ h3 _ _ r2]
    by (simp add: float64_def fl_eval MAX_POINTS_def)
  have c: "sample [10, 20, 30, 40] (Fin 1) MAX_POINTS (\<lambda>k. 1 / 2) = [10, 20, 30, 40]"
    using sample_size_and_members [of 1 MAX_POINTS "[10, 20, 30, 40]" "\<lambda>k. 1 / 2", OF _ _ h3 _ _ r1]
    by (simp add: float64_def fl_eval MAX_POINTS_def)
  from a b c show ?thesis by simp
qed

end
